theory Spec2Isabelle
  imports Complex_Main
begin

section \<open>Array elements\<close>

text \<open>
  The notebooks compute on numpy arrays of float64. An element is modelled as an exact
  real when it is finite, and as one of the three IEEE special values otherwise: the
  degenerate cases of the code (division by zero, logarithm of a non-positive number)
  produce exactly these. Rounding, overflow and the sign of zero are not modelled. The
  library of reals is total where numpy is not (\<open>x / 0 = 0\<close>, \<open>ln 0 = 0\<close>,
  \<open>ln (- x) = ln x\<close>), so every operation below guards its argument and gives the
  value numpy gives.
\<close>

datatype fval = Fin real | PInf | NInf | NaN

fun isfinite :: "fval \<Rightarrow> bool" where
  "isfinite (Fin x) = True"
| "isfinite PInf = False"
| "isfinite NInf = False"
| "isfinite NaN = False"

definition inf_of_sign :: "real \<Rightarrow> fval" where
  "inf_of_sign s = (if 0 < s then PInf else if s < 0 then NInf else NaN)"

fun fneg :: "fval \<Rightarrow> fval" where
  "fneg (Fin x) = Fin (- x)"
| "fneg PInf = NInf"
| "fneg NInf = PInf"
| "fneg NaN = NaN"

fun fadd :: "fval \<Rightarrow> fval \<Rightarrow> fval" where
  "fadd (Fin x) (Fin y) = Fin (x + y)"
| "fadd (Fin x) PInf = PInf"
| "fadd (Fin x) NInf = NInf"
| "fadd PInf (Fin y) = PInf"
| "fadd PInf PInf = PInf"
| "fadd PInf NInf = NaN"
| "fadd NInf (Fin y) = NInf"
| "fadd NInf PInf = NaN"
| "fadd NInf NInf = NInf"
| "fadd NaN y = NaN"
| "fadd x NaN = NaN"

definition fsub :: "fval \<Rightarrow> fval \<Rightarrow> fval" where
  "fsub x y = fadd x (fneg y)"

fun fmul :: "fval \<Rightarrow> fval \<Rightarrow> fval" where
  "fmul (Fin x) (Fin y) = Fin (x * y)"
| "fmul (Fin x) PInf = inf_of_sign x"
| "fmul (Fin x) NInf = inf_of_sign (- x)"
| "fmul PInf (Fin y) = inf_of_sign y"
| "fmul PInf PInf = PInf"
| "fmul PInf NInf = NInf"
| "fmul NInf (Fin y) = inf_of_sign (- y)"
| "fmul NInf PInf = NInf"
| "fmul NInf NInf = PInf"
| "fmul NaN y = NaN"
| "fmul x NaN = NaN"

fun fdiv :: "fval \<Rightarrow> fval \<Rightarrow> fval" where
  "fdiv (Fin x) (Fin y) = (if y = 0 then inf_of_sign x else Fin (x / y))"
| "fdiv (Fin x) PInf = Fin 0"
| "fdiv (Fin x) NInf = Fin 0"
| "fdiv PInf (Fin y) = (if 0 \<le> y then PInf else NInf)"
| "fdiv NInf (Fin y) = (if 0 \<le> y then NInf else PInf)"
| "fdiv PInf PInf = NaN"
| "fdiv PInf NInf = NaN"
| "fdiv NInf PInf = NaN"
| "fdiv NInf NInf = NaN"
| "fdiv NaN y = NaN"
| "fdiv x NaN = NaN"

text \<open>\<open>np.log\<close>: minus infinity at zero, NaN below it.\<close>

fun flog :: "fval \<Rightarrow> fval" where
  "flog (Fin x) = (if x < 0 then NaN else if x = 0 then NInf else Fin (ln x))"
| "flog PInf = PInf"
| "flog NInf = NaN"
| "flog NaN = NaN"

text \<open>\<open>np.clip(x, lo, hi)\<close>, which is \<open>minimum(maximum(x, lo), hi)\<close>: a NaN stays a NaN.\<close>

fun fclip :: "real \<Rightarrow> real \<Rightarrow> fval \<Rightarrow> fval" where
  "fclip lo hi (Fin x) = Fin (min (max x lo) hi)"
| "fclip lo hi PInf = Fin hi"
| "fclip lo hi NInf = Fin (min lo hi)"
| "fclip lo hi NaN = NaN"

text \<open>The comparison \<open>x <= y\<close> of IEEE values: false as soon as one side is a NaN.\<close>

fun fle :: "fval \<Rightarrow> fval \<Rightarrow> bool" where
  "fle (Fin x) (Fin y) = (x \<le> y)"
| "fle (Fin x) PInf = True"
| "fle (Fin x) NInf = False"
| "fle PInf (Fin y) = False"
| "fle PInf PInf = True"
| "fle PInf NInf = False"
| "fle NInf (Fin y) = True"
| "fle NInf PInf = True"
| "fle NInf NInf = True"
| "fle NaN y = False"
| "fle x NaN = False"

section \<open>Two-dimensional arrays\<close>

text \<open>
  A 2-D numpy array: its shape and its rows. The shape is kept beside the rows because
  an array with no row still has a number of columns.
\<close>

record 'a ndarray =
  nrows :: nat
  ncols :: nat
  rows :: "'a list list"

definition wf_array :: "'a ndarray \<Rightarrow> bool" where
  "wf_array a = (length (rows a) = nrows a \<and> list_all (\<lambda>r. length r = ncols a) (rows a))"

definition amap :: "('a \<Rightarrow> 'b) \<Rightarrow> 'a ndarray \<Rightarrow> 'b ndarray" where
  "amap f a = \<lparr>nrows = nrows a, ncols = ncols a, rows = map (map f) (rows a)\<rparr>"

definition ravel :: "'a ndarray \<Rightarrow> 'a list" where
  "ravel a = concat (rows a)"

section \<open>Normalisation and stretch (Fits_images.ipynb)\<close>

text \<open>The exceptions the two functions of the notebook can end with.\<close>

datatype error = AssertionError | IndexError | ValueError

text \<open>
  Modelled from the spec: the astropy objects that \<open>logScaleImage\<close> calls are library
  code, not in the source. Section 4.1 gives what they compute; where the library does
  more than the formula, the model follows the library:
  \<^item> \<open>AsymmetricPercentileInterval(lo, hi).get_limits\<close> drops the non-finite values and
    returns the two percentiles of the rest (\<open>np.percentile\<close>, linear interpolation
    between the two nearest ranks; NaN when no finite value is left);
  \<^item> calling the interval subtracts \<open>vmin\<close>, divides by \<open>vmax - vmin\<close> unless that
    difference is zero, and clips to \<open>[0, 1]\<close>;
  \<^item> \<open>LogStretch(a)\<close>, called, clips to \<open>[0, 1]\<close> and maps \<open>u\<close> to
    \<open>log(1 + a u) / log(1 + a)\<close>.
\<close>

fun finite_values :: "fval list \<Rightarrow> real list" where
  "finite_values [] = []"
| "finite_values (Fin x # xs) = x # finite_values xs"
| "finite_values (v # xs) = finite_values xs"

definition percentile :: "real list \<Rightarrow> real \<Rightarrow> fval" where
  "percentile vs q =
     (if vs = [] then NaN
      else let s = sort vs;
               n = length s;
               idx = q / 100 * real (n - 1);
               lo = nat \<lfloor>idx\<rfloor>;
               hi = min (lo + 1) (n - 1);
               frac = idx - real lo
           in Fin (s ! lo + frac * (s ! hi - s ! lo)))"

record percentile_interval =
  lower_percentile :: real
  upper_percentile :: real

definition get_limits :: "percentile_interval \<Rightarrow> fval ndarray \<Rightarrow> fval \<times> fval" where
  "get_limits reagon img =
     (let values = finite_values (ravel img)
      in (percentile values (lower_percentile reagon),
          percentile values (upper_percentile reagon)))"

definition interval_call :: "percentile_interval \<Rightarrow> fval ndarray \<Rightarrow> fval ndarray" where
  "interval_call reagon img =
     (let (vmin, vmax) = get_limits reagon img;
          values = amap (\<lambda>v. fsub v vmin) img;
          values = (if fsub vmax vmin \<noteq> Fin 0
                    then amap (\<lambda>v. fdiv v (fsub vmax vmin)) values else values)
      in amap (fclip 0 1) values)"

definition log_stretch :: "fval \<Rightarrow> fval \<Rightarrow> fval" where
  "log_stretch a u = fdiv (flog (fadd (Fin 1) (fmul a u))) (flog (fadd (Fin 1) a))"

definition LogStretch :: "fval \<Rightarrow> fval ndarray \<Rightarrow> fval ndarray" where
  "LogStretch a values = amap (\<lambda>v. log_stretch a (fclip 0 1 v)) values"

text \<open>
  Modelled from the library: the constructor \<open>stretch.LogStretch(a=a)\<close>. Releases of
  astropy differ here. Current ones refuse a parameter that is not positive
  (\<open>if a <= 0: raise ValueError("a must be > 0")\<close>; a NaN or an infinite \<open>a\<close> passes the
  comparison); the releases of the notebook's time store any \<open>a\<close>. The flag \<open>checked\<close>
  says which library the call runs on, and every statement below says for which value
  of the flag it holds.
\<close>

definition LogStretch_init :: "bool \<Rightarrow> fval \<Rightarrow> error + fval" where
  "LogStretch_init checked a = (if checked \<and> fle a (Fin 0) then Inl ValueError else Inr a)"

text \<open>
  What \<open>logScaleImage\<close> returns: the scaled image, or with \<open>return_full\<close> the tuple
  \<open>(image_scaled, vmin, vmax, scale)\<close>, the stretch object standing for its parameter.
\<close>

datatype scaled = Image "fval ndarray" | Full "fval ndarray" fval fval fval

definition logScaleImage :: "bool \<Rightarrow> fval ndarray \<Rightarrow> bool \<Rightarrow> error + scaled" where
  "logScaleImage checked img return_full =
     (let reagon = \<lparr>lower_percentile = 10, upper_percentile = 99.95\<rparr>;
          (vmin, vmax) = get_limits reagon img;
          a = fsub (fdiv vmax vmin) (Fin 1)
      in case LogStretch_init checked a of
           Inl e \<Rightarrow> Inl e
         | Inr scale \<Rightarrow>
             (let image_scaled = LogStretch scale (interval_call reagon img)
              in Inr (if return_full then Full image_scaled vmin vmax scale
                      else Image image_scaled)))"

definition the_image :: "scaled \<Rightarrow> fval ndarray" where
  "the_image r = (case r of Image im \<Rightarrow> im | Full im vmin vmax a \<Rightarrow> im)"

text \<open>
  The map one pixel goes through when the call returns, the linear rescaling of a finite
  value, and its extension to the infinite values (which the clip sends to 1 and to 0);
  all three are unfoldings of the definitions above, named for the proofs.
\<close>

definition scale_pixel :: "fval \<Rightarrow> fval \<Rightarrow> fval \<Rightarrow> fval" where
  "scale_pixel vmin vmax v =
     log_stretch (fsub (fdiv vmax vmin) (Fin 1))
       (fclip 0 1 (fclip 0 1
          (if fsub vmax vmin \<noteq> Fin 0 then fdiv (fsub v vmin) (fsub vmax vmin) else fsub v vmin)))"

definition rescale :: "real \<Rightarrow> real \<Rightarrow> real \<Rightarrow> real" where
  "rescale vmin vmax v = min (max ((v - vmin) / (vmax - vmin)) 0) 1"

fun rescale_ext :: "real \<Rightarrow> real \<Rightarrow> fval \<Rightarrow> real" where
  "rescale_ext vmin vmax (Fin v) = rescale vmin vmax v"
| "rescale_ext vmin vmax PInf = 1"
| "rescale_ext vmin vmax NInf = 0"
| "rescale_ext vmin vmax NaN = 0"

text \<open>
  Small images: limits \<open>(1, 2)\<close>; negative limits \<open>(-4, -1)\<close>; lower limit zero,
  \<open>(0, 0.999)\<close>; a constant image; the zero image.
\<close>

definition img2 :: "fval ndarray" where
  "img2 = \<lparr>nrows = 2, ncols = 2, rows = [[Fin 1, Fin 2], [Fin 2, Fin 1]]\<rparr>"

definition img_neg :: "fval ndarray" where
  "img_neg = \<lparr>nrows = 2, ncols = 2, rows = [[Fin (- 4), Fin (- 4)], [Fin (- 1), Fin (- 1)]]\<rparr>"

definition img_low0 :: "fval ndarray" where
  "img_low0 = \<lparr>nrows = 1, ncols = 3, rows = [[Fin 0, Fin 0, Fin 1]]\<rparr>"

definition img3 :: "fval ndarray" where
  "img3 = \<lparr>nrows = 2, ncols = 2, rows = [[Fin 5, Fin 5], [Fin 5, Fin 5]]\<rparr>"

definition img_zero :: "fval ndarray" where
  "img_zero = \<lparr>nrows = 2, ncols = 2, rows = [[Fin 0, Fin 0], [Fin 0, Fin 0]]\<rparr>"

section \<open>Covariance to ellipse (the error-ellipse notebook)\<close>

text \<open>
  A 2 x 2 real matrix, indexed as numpy does: \<open>m10\<close> is the entry \<open>[1, 0]\<close>.
\<close>

record mat2 =
  m00 :: real
  m01 :: real
  m10 :: real
  m11 :: real

definition mmul :: "mat2 \<Rightarrow> mat2 \<Rightarrow> mat2" where
  "mmul A B = \<lparr>m00 = m00 A * m00 B + m01 A * m10 B, m01 = m00 A * m01 B + m01 A * m11 B,
               m10 = m10 A * m00 B + m11 A * m10 B, m11 = m10 A * m01 B + m11 A * m11 B\<rparr>"

definition mtrans :: "mat2 \<Rightarrow> mat2" where
  "mtrans A = \<lparr>m00 = m00 A, m01 = m10 A, m10 = m01 A, m11 = m11 A\<rparr>"

definition mdiag :: "real \<times> real \<Rightarrow> mat2" where
  "mdiag s = \<lparr>m00 = fst s, m01 = 0, m10 = 0, m11 = snd s\<rparr>"

definition mident :: mat2 where
  "mident = \<lparr>m00 = 1, m01 = 0, m10 = 0, m11 = 1\<rparr>"

definition unitary :: "mat2 \<Rightarrow> bool" where
  "unitary U = (mmul (mtrans U) U = mident \<and> mmul U (mtrans U) = mident)"

text \<open>
  Modelled from the spec: \<open>scipy.linalg.svd\<close> is library code, not in the source. The
  model takes the routine as a parameter of \<open>cov_to_ellipse\<close> and states the contract
  section 4.2 gives (orthonormal vectors, values in non-increasing order and
  non-negative): it returns \<open>(U, s, Vh)\<close> with \<open>U\<close> and \<open>Vh\<close> unitary,
  \<open>s\<^sub>1 \<ge> s\<^sub>2 \<ge> 0\<close> and \<open>A = U diag(s) Vh\<close>. The contract leaves the signs of the
  singular vectors open.
\<close>

definition is_svd :: "mat2 \<Rightarrow> mat2 \<times> (real \<times> real) \<times> mat2 \<Rightarrow> bool" where
  "is_svd A r = (case r of (U, s, Vh) \<Rightarrow>
     unitary U \<and> unitary Vh \<and> 0 \<le> snd s \<and> snd s \<le> fst s \<and> A = mmul (mmul U (mdiag s)) Vh)"

text \<open>\<open>np.arctan2(y, x)\<close>, the angle of the point \<open>(x, y)\<close> in \<open>(-pi, pi]\<close>, and \<open>np.degrees\<close>.\<close>

definition arctan2 :: "real \<Rightarrow> real \<Rightarrow> real" where
  "arctan2 y x =
     (if 0 < x then arctan (y / x)
      else if x < 0 then (if 0 \<le> y then arctan (y / x) + pi else arctan (y / x) - pi)
      else if 0 < y then pi / 2
      else if y < 0 then - pi / 2
      else 0)"

definition degrees :: "real \<Rightarrow> real" where
  "degrees r = r * 180 / pi"

text \<open>\<open>np.sqrt\<close> on a finite value: NaN below zero.\<close>

definition np_sqrt :: "real \<Rightarrow> fval" where
  "np_sqrt x = (if x < 0 then NaN else Fin (sqrt x))"

text \<open>
  The arguments of the \<open>Ellipse\<close> patch that \<open>cov_to_ellipse\<close> builds; the drawing
  options passed through \<open>**kwargs\<close> are left out.
\<close>

record ellipse =
  xy :: "real \<times> real"
  width :: fval
  height :: fval
  angle :: real

definition cov_to_ellipse ::
    "(mat2 \<Rightarrow> mat2 \<times> (real \<times> real) \<times> mat2) \<Rightarrow> mat2 \<Rightarrow> real \<times> real \<Rightarrow> ellipse" where
  "cov_to_ellipse svd cov pos =
     (let (eigvec, eigval, V) = svd cov;
          theta = degrees (arctan2 (m10 eigvec) (m00 eigvec));
          width = fmul (Fin 2) (np_sqrt (fst eigval));
          height = fmul (Fin 2) (np_sqrt (snd eigval))
      in \<lparr>xy = pos, width = width, height = height, angle = theta\<rparr>)"

text \<open>
  The covariance matrix of the table row \<open>(sx, sy, pxy)\<close>, as \<open>plot_ellipse\<close> builds it.
\<close>

definition row_cov :: "real \<Rightarrow> real \<Rightarrow> real \<Rightarrow> mat2" where
  "row_cov sx sy pxy = \<lparr>m00 = sx ^ 2, m01 = pxy * sx * sy, m10 = pxy * sx * sy, m11 = sy ^ 2\<rparr>"

text \<open>
  The two eigenvalues of a symmetric matrix \<open>[[a, b], [b, d]]\<close>, the larger first.
\<close>

definition eigvals :: "mat2 \<Rightarrow> real \<times> real" where
  "eigvals A =
     (let r = sqrt (((m00 A - m11 A) / 2) ^ 2 + (m01 A) ^ 2)
      in ((m00 A + m11 A) / 2 + r, (m00 A + m11 A) / 2 - r))"

definition symmetric :: "mat2 \<Rightarrow> bool" where
  "symmetric A = (m01 A = m10 A)"

definition psd :: "mat2 \<Rightarrow> bool" where
  "psd A = (symmetric A \<and> 0 \<le> m00 A \<and> 0 \<le> m11 A \<and> (m01 A) ^ 2 \<le> m00 A * m11 A)"

text \<open>
  Following the spec's round-trip law: the covariance matrix rebuilt from the ellipse
  parameters, \<open>R diag((width/2)^2, (height/2)^2) R\<^sup>T\<close> with \<open>R\<close> the rotation by
  \<open>angle\<close> degrees.
\<close>

definition ellipse_to_cov :: "real \<Rightarrow> real \<Rightarrow> real \<Rightarrow> mat2" where
  "ellipse_to_cov w h ang =
     (let t = ang * pi / 180;
          R = \<lparr>m00 = cos t, m01 = - sin t, m10 = sin t, m11 = cos t\<rparr>
      in mmul (mmul R (mdiag ((w / 2) ^ 2, (h / 2) ^ 2))) (mtrans R))"

text \<open>Determinant and squared Frobenius norm, for the proofs.\<close>

definition mdet :: "mat2 \<Rightarrow> real" where
  "mdet A = m00 A * m11 A - m01 A * m10 A"

definition frob :: "mat2 \<Rightarrow> real" where
  "frob A = (m00 A)^2 + (m01 A)^2 + (m10 A)^2 + (m11 A)^2"

text \<open>
  Concrete inputs with a singular value decomposition of each: the indefinite matrix
  \<open>[[1, 2], [2, 1]]\<close> of the spec, the covariance matrix \<open>[[2, 1], [1, 2]]\<close>, the
  diagonal matrix \<open>[[4, 0], [0, 1]]\<close> and the matrix \<open>[[0, 1], [1, 0]]\<close>.
\<close>

definition cov_indef :: mat2 where
  "cov_indef = \<lparr>m00 = 1, m01 = 2, m10 = 2, m11 = 1\<rparr>"

definition svd_indef :: "mat2 \<Rightarrow> mat2 \<times> (real \<times> real) \<times> mat2" where
  "svd_indef A =
     (\<lparr>m00 = sqrt 2 / 2, m01 = sqrt 2 / 2, m10 = sqrt 2 / 2, m11 = - (sqrt 2 / 2)\<rparr>,
      (3, 1),
      \<lparr>m00 = sqrt 2 / 2, m01 = sqrt 2 / 2, m10 = - (sqrt 2 / 2), m11 = sqrt 2 / 2\<rparr>)"

definition cov_corr :: mat2 where
  "cov_corr = \<lparr>m00 = 2, m01 = 1, m10 = 1, m11 = 2\<rparr>"

definition svd_corr :: "mat2 \<Rightarrow> mat2 \<times> (real \<times> real) \<times> mat2" where
  "svd_corr A =
     (\<lparr>m00 = sqrt 2 / 2, m01 = sqrt 2 / 2, m10 = sqrt 2 / 2, m11 = - (sqrt 2 / 2)\<rparr>,
      (3, 1),
      \<lparr>m00 = sqrt 2 / 2, m01 = sqrt 2 / 2, m10 = sqrt 2 / 2, m11 = - (sqrt 2 / 2)\<rparr>)"

definition svd_diag :: "mat2 \<Rightarrow> mat2 \<times> (real \<times> real) \<times> mat2" where
  "svd_diag A = (mident, (4, 1), mident)"

definition cov_swap :: mat2 where
  "cov_swap = \<lparr>m00 = 0, m01 = 1, m10 = 1, m11 = 0\<rparr>"

definition svd_swap :: "mat2 \<Rightarrow> mat2 \<times> (real \<times> real) \<times> mat2" where
  "svd_swap A = (mident, (1, 1), \<lparr>m00 = 0, m01 = 1, m10 = 1, m11 = 0\<rparr>)"


section \<open>Colour compositing (Fits_images.ipynb)\<close>

text \<open>
  numpy's element-wise operations are library code. Broadcasting of two shapes goes one
  dimension at a time: the sizes are equal, or one of them is 1 and is stretched to the
  other; otherwise numpy raises a ValueError. \<open>stretch\<close> repeats the only element of a
  list of length 1.
\<close>

definition bdim :: "nat \<Rightarrow> nat \<Rightarrow> nat option" where
  "bdim d1 d2 =
     (if d1 = d2 then Some d1 else if d1 = 1 then Some d2 else if d2 = 1 then Some d1 else None)"

fun stretch :: "nat \<Rightarrow> 'a list \<Rightarrow> 'a list" where
  "stretch n [x] = replicate n x"
| "stretch n xs = xs"

definition broadcast2 ::
    "('a \<Rightarrow> 'b \<Rightarrow> 'c) \<Rightarrow> 'a ndarray \<Rightarrow> 'b ndarray \<Rightarrow> error + 'c ndarray" where
  "broadcast2 f a b =
     (case bdim (nrows a) (nrows b) of
        None \<Rightarrow> Inl ValueError
      | Some r \<Rightarrow>
         (case bdim (ncols a) (ncols b) of
            None \<Rightarrow> Inl ValueError
          | Some c \<Rightarrow>
              Inr \<lparr>nrows = r, ncols = c,
                   rows = map2 (\<lambda>ra rb. map2 f (stretch c ra) (stretch c rb))
                            (stretch r (rows a)) (stretch r (rows b))\<rparr>))"

text \<open>
  An array of shape \<open>3 x N x M\<close> is kept as its three channels. A colour is the triple
  that \<open>cc.to_rgb\<close> returns.
\<close>

type_synonym cube = "fval ndarray \<times> fval ndarray \<times> fval ndarray"

type_synonym color = "real \<times> real \<times> real"

text \<open>\<open>img[~np.isfinite(img)] = 0.0\<close>: the array after the assignment.\<close>

definition sanitize :: "fval ndarray \<Rightarrow> fval ndarray" where
  "sanitize img = amap (\<lambda>v. if isfinite v then v else Fin 0) img"

text \<open>\<open>rgb * img\<close>, with \<open>rgb\<close> of shape \<open>3 x 1 x 1\<close>.\<close>

fun color_layer :: "color \<Rightarrow> fval ndarray \<Rightarrow> cube" where
  "color_layer (r, g, b) img =
     (amap (fmul (Fin r)) img, amap (fmul (Fin g)) img, amap (fmul (Fin b)) img)"

text \<open>\<open>1 - x\<close> and \<open>x * y\<close> on such arrays; the product broadcasts and can fail.\<close>

fun one_minus :: "cube \<Rightarrow> cube" where
  "one_minus (r, g, b) = (amap (fsub (Fin 1)) r, amap (fsub (Fin 1)) g, amap (fsub (Fin 1)) b)"

fun cube_mul :: "cube \<Rightarrow> cube \<Rightarrow> error + cube" where
  "cube_mul (r1, g1, b1) (r2, g2, b2) =
     (case broadcast2 fmul r1 r2 of
        Inl e \<Rightarrow> Inl e
      | Inr r \<Rightarrow>
         (case broadcast2 fmul g1 g2 of
            Inl e \<Rightarrow> Inl e
          | Inr g \<Rightarrow>
             (case broadcast2 fmul b1 b2 of
                Inl e \<Rightarrow> Inl e
              | Inr b \<Rightarrow> Inr (r, g, b))))"

text \<open>One step of the loop, \<open>base = 1 - ((1 - base) * (1 - layer))\<close>, and the loop.\<close>

definition screen :: "cube \<Rightarrow> cube \<Rightarrow> error + cube" where
  "screen base layer =
     (case cube_mul (one_minus base) (one_minus layer) of
        Inl e \<Rightarrow> Inl e
      | Inr p \<Rightarrow> Inr (one_minus p))"

fun screen_all :: "cube \<Rightarrow> cube list \<Rightarrow> error + cube" where
  "screen_all base [] = Inr base"
| "screen_all base (layer # layers) =
     (case screen base layer of Inl e \<Rightarrow> Inl e | Inr b \<Rightarrow> screen_all b layers)"

text \<open>\<open>np.rollaxis(base, 0, 3)\<close>: from \<open>3 x N x M\<close> to \<open>N x M x 3\<close>, a 2-D array of RGB pixels.\<close>

fun rollaxis :: "cube \<Rightarrow> (fval \<times> fval \<times> fval) ndarray" where
  "rollaxis (r, g, b) =
     \<lparr>nrows = nrows r, ncols = ncols r,
      rows = map (\<lambda>i. map (\<lambda>j. (rows r ! i ! j, rows g ! i ! j, rows b ! i ! j))
                         [0..<ncols r]) [0..<nrows r]\<rparr>"

text \<open>
  \<open>colorize(*args, colors)\<close>. The first loop assigns into each input array, so the model
  returns the caller's arrays as they are after the call, next to the result or the
  exception. The assertion comes before any assignment; \<open>images[0]\<close> of an empty list
  is an IndexError.
\<close>

definition colorize ::
    "fval ndarray list \<Rightarrow> color list \<Rightarrow>
       fval ndarray list \<times> (error + (fval \<times> fval \<times> fval) ndarray)" where
  "colorize args colors =
     (if length args \<noteq> length colors then (args, Inl AssertionError)
      else
        let args' = map sanitize args;
            images = map2 (\<lambda>img color. color_layer color img) args' colors
        in (args',
            case images of
              [] \<Rightarrow> Inl IndexError
            | base # layers \<Rightarrow>
                (case screen_all base layers of
                   Inl e \<Rightarrow> Inl e
                 | Inr b \<Rightarrow> Inr (rollaxis b))))"

definition ones :: "nat \<Rightarrow> nat \<Rightarrow> fval ndarray" where
  "ones n m = \<lparr>nrows = n, ncols = m, rows = replicate n (replicate m (Fin 1))\<rparr>"

text \<open>Two more inputs: an image with a NaN, and a 1 x 1 image.\<close>

definition img_nan :: "fval ndarray" where
  "img_nan = \<lparr>nrows = 1, ncols = 2, rows = [[NaN, Fin 1]]\<rparr>"

definition img_one :: "fval ndarray" where
  "img_one = \<lparr>nrows = 1, ncols = 1, rows = [[Fin 1]]\<rparr>"

text \<open>
  The shape of an array, the shape numpy broadcasts a sequence of shapes to (folding from
  the left, as the loop does), and what it means for the three channels to have a shape.
\<close>

definition shape :: "'a ndarray \<Rightarrow> nat \<times> nat" where
  "shape a = (nrows a, ncols a)"

fun broadcast_shapes :: "nat \<times> nat \<Rightarrow> (nat \<times> nat) list \<Rightarrow> (nat \<times> nat) option" where
  "broadcast_shapes s [] = Some s"
| "broadcast_shapes s (t # ts) =
     (case bdim (fst s) (fst t) of
        None \<Rightarrow> None
      | Some r \<Rightarrow>
         (case bdim (snd s) (snd t) of
            None \<Rightarrow> None
          | Some c \<Rightarrow> broadcast_shapes (r, c) ts))"

fun cube_shape :: "cube \<Rightarrow> nat \<times> nat \<Rightarrow> bool" where
  "cube_shape (r, g, b) s = (shape r = s \<and> shape g = s \<and> shape b = s)"

text \<open>
  Following the spec's words for the compositing (section 4.3), on one pixel: a layer is
  the image value, non-finite values replaced by 0, multiplied by the colour; layers are
  accumulated with \<open>base = 1 - (1 - base) (1 - layer)\<close>.
\<close>

type_synonym rgb = "fval \<times> fval \<times> fval"

definition screen_px :: "fval \<Rightarrow> fval \<Rightarrow> fval" where
  "screen_px base layer = fsub (Fin 1) (fmul (fsub (Fin 1) base) (fsub (Fin 1) layer))"

definition layer_px :: "real \<Rightarrow> fval \<Rightarrow> fval" where
  "layer_px c v = fmul (Fin c) (if isfinite v then v else Fin 0)"

fun px_screen :: "rgb \<Rightarrow> rgb \<Rightarrow> rgb" where
  "px_screen (r1, g1, b1) (r2, g2, b2) = (screen_px r1 r2, screen_px g1 g2, screen_px b1 b2)"

fun px_layer :: "color \<Rightarrow> fval \<Rightarrow> rgb" where
  "px_layer (r, g, b) v = (layer_px r v, layer_px g v, layer_px b v)"

text \<open>
  A well-formed array of shape \<open>n x m\<close>, three channels of that shape, and the RGB
  value of a pixel of a \<open>3 x N x M\<close> array.
\<close>

definition grid :: "'a ndarray \<Rightarrow> nat \<Rightarrow> nat \<Rightarrow> bool" where
  "grid a n m = (wf_array a \<and> nrows a = n \<and> ncols a = m)"

fun cube_grid :: "cube \<Rightarrow> nat \<Rightarrow> nat \<Rightarrow> bool" where
  "cube_grid (r, g, b) n m = (grid r n m \<and> grid g n m \<and> grid b n m)"

fun cube_px :: "cube \<Rightarrow> nat \<Rightarrow> nat \<Rightarrow> rgb" where
  "cube_px (r, g, b) i j = (rows r ! i ! j, rows g ! i ! j, rows b ! i ! j)"

section \<open>The arrays in a store\<close>

text \<open>
  The definitions above compute on array values. To say which arrays a call changes,
  the two functions are written once more with the arrays in a store: a list of arrays,
  an array being named by its position. A numpy operation without \<open>out\<close> puts its
  result into a new array, appended to the store; an operation with \<open>out=values\<close>, or
  an indexed assignment, overwrites the array it names.
\<close>

type_synonym store = "fval ndarray list"

definition alloc :: "store \<Rightarrow> fval ndarray \<Rightarrow> nat \<times> store" where
  "alloc h a = (length h, h @ [a])"

definition in_place :: "(fval \<Rightarrow> fval) \<Rightarrow> nat \<Rightarrow> store \<Rightarrow> store" where
  "in_place f r h = h[r := amap f (h ! r)]"

text \<open>
  Modelled from the library: the two calls inside \<open>(scale + reagon)(image)\<close>. The
  interval subtracts into a new array (\<open>np.subtract(values, float(vmin))\<close>), then divides
  and clips that array in place. The stretch clips into a new array
  (\<open>np.clip(values, 0., 1.)\<close>), then multiplies, adds, takes the logarithm and divides
  in place.
\<close>

definition interval_call_st :: "percentile_interval \<Rightarrow> nat \<Rightarrow> store \<Rightarrow> nat \<times> store" where
  "interval_call_st reagon img h =
     (let (vmin, vmax) = get_limits reagon (h ! img);
          (values, h1) = alloc h (amap (\<lambda>v. fsub v vmin) (h ! img));
          h2 = (if fsub vmax vmin \<noteq> Fin 0
                then in_place (\<lambda>v. fdiv v (fsub vmax vmin)) values h1 else h1)
      in (values, in_place (fclip 0 1) values h2))"

definition LogStretch_st :: "fval \<Rightarrow> nat \<Rightarrow> store \<Rightarrow> nat \<times> store" where
  "LogStretch_st a values h =
     (let (out, h1) = alloc h (amap (fclip 0 1) (h ! values));
          h2 = in_place (fmul a) out h1;
          h3 = in_place (fadd (Fin 1)) out h2;
          h4 = in_place flog out h3
      in (out, in_place (\<lambda>v. fdiv v (flog (fadd (Fin 1) a))) out h4))"

text \<open>\<open>logScaleImage\<close> on the store: the image is given, and the result returned, by name.\<close>

datatype scaled_ref = ImageRef nat | FullRef nat fval fval fval

definition logScaleImage_st ::
    "bool \<Rightarrow> nat \<Rightarrow> bool \<Rightarrow> store \<Rightarrow> (error + scaled_ref) \<times> store" where
  "logScaleImage_st checked img return_full h =
     (let reagon = \<lparr>lower_percentile = 10, upper_percentile = 99.95\<rparr>;
          (vmin, vmax) = get_limits reagon (h ! img);
          a = fsub (fdiv vmax vmin) (Fin 1)
      in case LogStretch_init checked a of
           Inl e \<Rightarrow> (Inl e, h)
         | Inr scale \<Rightarrow>
             (let (values, h1) = interval_call_st reagon img h;
                  (image_scaled, h2) = LogStretch_st scale values h1
              in (Inr (if return_full then FullRef image_scaled vmin vmax scale
                       else ImageRef image_scaled), h2)))"

definition deref :: "store \<Rightarrow> scaled_ref \<Rightarrow> scaled" where
  "deref h r = (case r of ImageRef im \<Rightarrow> Image (h ! im)
                | FullRef im vmin vmax a \<Rightarrow> Full (h ! im) vmin vmax a)"

text \<open>
  \<open>colorize\<close> on the store. Here a colour is what the caller passes: \<open>None\<close> stands for
  a value that \<open>cc.to_rgb\<close> refuses with a ValueError. The loop converts the colour,
  then assigns into the image, then appends the layer, so a refused colour ends the call
  before the image beside it, and the images after it, are assigned to.
\<close>

fun colorize_loop ::
    "nat list \<Rightarrow> color option list \<Rightarrow> cube list \<Rightarrow> store \<Rightarrow> (error + cube list) \<times> store" where
  "colorize_loop (img # args) (Some rgb # colors) images h =
     (let h' = in_place (\<lambda>v. if isfinite v then v else Fin 0) img h
      in colorize_loop args colors (images @ [color_layer rgb (h' ! img)]) h')"
| "colorize_loop (img # args) (None # colors) images h = (Inl ValueError, h)"
| "colorize_loop args colors images h = (Inr images, h)"

definition colorize_st ::
    "nat list \<Rightarrow> color option list \<Rightarrow> store \<Rightarrow> (error + (fval \<times> fval \<times> fval) ndarray) \<times> store" where
  "colorize_st args colors h =
     (if length args \<noteq> length colors then (Inl AssertionError, h)
      else
        (case colorize_loop args colors [] h of
           (Inl e, h') \<Rightarrow> (Inl e, h')
         | (Inr images, h') \<Rightarrow>
             (case images of
                [] \<Rightarrow> Inl IndexError
              | base # layers \<Rightarrow>
                  (case screen_all base layers of
                     Inl e \<Rightarrow> Inl e
                   | Inr b \<Rightarrow> Inr (rollaxis b)), h')))"

text \<open>The images the loop reaches: those beside the colours before the first refused one.\<close>

definition reached :: "nat list \<Rightarrow> color option list \<Rightarrow> nat list" where
  "reached args colors = take (length (takeWhile (\<lambda>c. c \<noteq> None) colors)) args"

definition store0 :: store where
  "store0 = [img_nan, img_one]"

section \<open>Properties of the normalisation and stretch\<close>

lemma amap_amap: "amap f (amap g a) = amap (\<lambda>v. f (g v)) a"
  by (simp add: amap_def comp_def)

lemma interval_call_amap:
  assumes "get_limits reagon img = (vmin, vmax)"
  shows "interval_call reagon img =
     amap (\<lambda>v. fclip 0 1 (if fsub vmax vmin \<noteq> Fin 0 then fdiv (fsub v vmin) (fsub vmax vmin)
                           else fsub v vmin)) img"
  using assms by (simp add: interval_call_def Let_def amap_amap)

text \<open>
  The call returns unless the library refuses the parameter \<open>a\<close>; when it returns, every
  pixel has gone through \<open>scale_pixel\<close>.
\<close>

lemma logScaleImage_returns:
  assumes "get_limits \<lparr>lower_percentile = 10, upper_percentile = 99.95\<rparr> img = (vmin, vmax)"
    and "\<not> (checked \<and> fle (fsub (fdiv vmax vmin) (Fin 1)) (Fin 0))"
  shows "\<exists>r. logScaleImage checked img return_full = Inr r
           \<and> the_image r = amap (scale_pixel vmin vmax) img"
  using assms
  by (auto simp: logScaleImage_def LogStretch_init_def LogStretch_def Let_def the_image_def
      interval_call_amap amap_amap scale_pixel_def [abs_def])

lemma logScaleImage_raises:
  assumes "get_limits \<lparr>lower_percentile = 10, upper_percentile = 99.95\<rparr> img = (vmin, vmax)"
    and "checked" and "fle (fsub (fdiv vmax vmin) (Fin 1)) (Fin 0)"
  shows "logScaleImage checked img return_full = Inl ValueError"
  using assms by (simp add: logScaleImage_def LogStretch_init_def Let_def)

lemma pixel_amap:
  assumes "i < length (rows img)" "j < length (rows img ! i)"
  shows "rows (amap f img) ! i ! j = f (rows img ! i ! j)"
  using assms by (simp add: amap_def)

lemma stretch_arg_pos:
  fixes a u :: real
  assumes "0 < 1 + a" "0 \<le> u" "u \<le> 1"
  shows "0 < 1 + a * u"
proof (cases "0 \<le> a")
  case True
  then have "0 \<le> a * u" using assms by simp
  then show ?thesis by linarith
next
  case False
  then have "a * 1 \<le> a * u" using assms by (intro mult_left_mono_neg) auto
  then show ?thesis using assms by linarith
qed

lemma rescale_ext_range: "0 \<le> rescale_ext vmin vmax p" "rescale_ext vmin vmax p \<le> 1"
  by (cases p; simp add: rescale_def)+

lemma scale_pixel_value:
  assumes "vmin < vmax" "0 < vmin \<or> vmax < 0" "p \<noteq> NaN"
  shows "scale_pixel (Fin vmin) (Fin vmax) p =
     Fin (ln (1 + (vmax / vmin - 1) * rescale_ext vmin vmax p) / ln (vmax / vmin))"
proof -
  define u where "u = rescale_ext vmin vmax p"
  have u: "0 \<le> u" "u \<le> 1" by (simp_all add: u_def rescale_ext_range)
  have r: "0 < vmax / vmin" "vmax / vmin \<noteq> 1" using assms by (auto simp: field_simps)
  have pos: "0 < 1 + (vmax / vmin - 1) * u"
    using stretch_arg_pos [of "vmax / vmin - 1" u] u r by simp
  have l: "ln (vmax / vmin) \<noteq> 0" using r by simp
  have nz: "vmin \<noteq> 0" using assms by auto
  have d: "fsub (Fin vmax) (Fin vmin) = Fin (vmax - vmin)" "vmax - vmin \<noteq> 0" "0 < vmax - vmin"
    using assms by (simp_all add: fsub_def)
  have c: "fclip 0 1 (fclip 0 1 (if fsub (Fin vmax) (Fin vmin) \<noteq> Fin 0
        then fdiv (fsub p (Fin vmin)) (fsub (Fin vmax) (Fin vmin)) else fsub p (Fin vmin))) = Fin u"
    using assms(3) d by (cases p) (simp_all add: fsub_def u_def rescale_def)
  show ?thesis
    unfolding scale_pixel_def c using pos l r nz
    by (simp add: log_stretch_def fsub_def u_def [symmetric])
qed

lemma stretch_range:
  fixes a u :: real
  assumes "0 < 1 + a" "a \<noteq> 0" "0 \<le> u" "u \<le> 1"
  shows "0 \<le> ln (1 + a * u) / ln (1 + a) \<and> ln (1 + a * u) / ln (1 + a) \<le> 1"
proof (cases "0 < a")
  case True
  have "0 \<le> a * u" "a * u \<le> a * 1" using True assms by (auto intro: mult_left_mono)
  then have "0 \<le> ln (1 + a * u)" "ln (1 + a * u) \<le> ln (1 + a)" using True by auto
  moreover have "0 < ln (1 + a)" using True by simp
  ultimately show ?thesis by (simp add: field_simps)
next
  case False
  then have neg: "a < 0" using assms by simp
  have p: "0 < 1 + a * u" using stretch_arg_pos assms by simp
  have "a * u \<le> 0" "a * 1 \<le> a * u" using neg assms by (auto intro: mult_left_mono_neg simp: mult_le_0_iff)
  then have "ln (1 + a * u) \<le> 0" "ln (1 + a) \<le> ln (1 + a * u)" using p assms by auto
  moreover have "ln (1 + a) < 0" using neg assms by simp
  ultimately show ?thesis by (simp add: field_simps)
qed

lemma stretch_mono:
  fixes a u :: real
  assumes "0 < 1 + a" "a \<noteq> 0" "0 \<le> u" "u \<le> w" "w \<le> 1"
  shows "ln (1 + a * u) / ln (1 + a) \<le> ln (1 + a * w) / ln (1 + a)"
proof (cases "0 < a")
  case True
  have "a * u \<le> a * w" using True assms by (auto intro: mult_left_mono)
  moreover have "0 < 1 + a * u" using stretch_arg_pos [of a u] assms by simp
  ultimately have "ln (1 + a * u) \<le> ln (1 + a * w)" by simp
  moreover have "0 < ln (1 + a)" using True by simp
  ultimately show ?thesis by (simp add: divide_right_mono)
next
  case False
  then have neg: "a < 0" using assms by simp
  have "a * w \<le> a * u" using neg assms by (auto intro: mult_left_mono_neg)
  moreover have "0 < 1 + a * w" using stretch_arg_pos [of a w] assms by simp
  ultimately have "ln (1 + a * w) \<le> ln (1 + a * u)" by simp
  moreover have "ln (1 + a) < 0" using neg assms by simp
  ultimately show ?thesis by (simp add: divide_right_mono_neg)
qed

lemma rescale_mono: "vmin < vmax \<Longrightarrow> v \<le> w \<Longrightarrow> rescale vmin vmax v \<le> rescale vmin vmax w"
  unfolding rescale_def by (intro min.mono max.mono divide_right_mono) auto

lemma rescale_ext_mono:
  assumes "vmin < vmax" "fle p q"
  shows "rescale_ext vmin vmax p \<le> rescale_ext vmin vmax q"
  using assms by (cases p; cases q) (simp_all add: rescale_mono, simp_all add: rescale_def)

lemma scale_pixel_equal_limits: "m \<noteq> 0 \<Longrightarrow> scale_pixel (Fin m) (Fin m) v = NaN"
  by (cases v) (simp_all add: scale_pixel_def log_stretch_def fsub_def inf_of_sign_def)

lemma scale_pixel_zero_low: "0 \<le> vmax \<Longrightarrow> scale_pixel (Fin 0) (Fin vmax) v = NaN"
  by (cases v) (auto simp: scale_pixel_def log_stretch_def fsub_def inf_of_sign_def)

text \<open>The percentile is monotone in the rank: the lower limit never exceeds the upper one.\<close>

lemma percentile_mono:
  assumes "0 \<le> q1" "q1 \<le> q2" "q2 \<le> 100"
    and "percentile vs q1 = Fin a" "percentile vs q2 = Fin b"
  shows "a \<le> b"
proof -
  have ne: "vs \<noteq> []" using assms(4) by (auto simp: percentile_def)
  define s where "s = sort vs"
  define n where "n = length s"
  define i1 where "i1 = q1 / 100 * real (n - 1)"
  define i2 where "i2 = q2 / 100 * real (n - 1)"
  define l1 where "l1 = nat \<lfloor>i1\<rfloor>"
  define l2 where "l2 = nat \<lfloor>i2\<rfloor>"
  define h1 where "h1 = min (l1 + 1) (n - 1)"
  define h2 where "h2 = min (l2 + 1) (n - 1)"
  have a: "a = s ! l1 + (i1 - real l1) * (s ! h1 - s ! l1)"
    using assms(4) ne by (simp add: percentile_def Let_def s_def n_def i1_def l1_def h1_def)
  have b: "b = s ! l2 + (i2 - real l2) * (s ! h2 - s ! l2)"
    using assms(5) ne by (simp add: percentile_def Let_def s_def n_def i2_def l2_def h2_def)
  have n: "0 < n" using ne by (simp add: n_def s_def)
  have srt: "sorted s" by (simp add: s_def)
  have i1: "0 \<le> i1" using assms by (simp add: i1_def)
  have i12: "i1 \<le> i2" using assms by (simp add: i1_def i2_def mult_right_mono divide_right_mono)
  have "i2 \<le> 1 * real (n - 1)" unfolding i2_def using assms by (intro mult_right_mono) auto
  then have i2n: "i2 \<le> real (n - 1)" by simp
  have l12: "l1 \<le> l2" unfolding l1_def l2_def using i12 by (intro nat_mono floor_mono)
  have "\<lfloor>i2\<rfloor> \<le> \<lfloor>real (n - 1)\<rfloor>" using i2n by (rule floor_mono)
  then have l2n: "l2 \<le> n - 1" by (simp add: l2_def)
  have f1: "0 \<le> i1 - real l1" "i1 - real l1 \<le> 1" using i1 by (simp_all add: l1_def) linarith+
  have i2: "0 \<le> i2" using i1 i12 by simp
  have f2: "0 \<le> i2 - real l2" "i2 - real l2 \<le> 1" using i2 by (simp_all add: l2_def) linarith+
  have hl1: "l1 \<le> h1" "h1 < n" using l12 l2n n by (auto simp: h1_def)
  have hl2: "l2 \<le> h2" "h2 < n" using l2n n by (auto simp: h2_def)
  have d1: "s ! l1 \<le> s ! h1" using srt hl1 by (simp add: sorted_nth_mono n_def)
  have d2: "s ! l2 \<le> s ! h2" using srt hl2 by (simp add: sorted_nth_mono n_def)
  show ?thesis
  proof (cases "l1 = l2")
    case True
    then have "h1 = h2" by (simp add: h1_def h2_def)
    moreover have "(i1 - real l1) * (s ! h1 - s ! l1) \<le> (i2 - real l1) * (s ! h1 - s ! l1)"
      using i12 d1 by (intro mult_right_mono) auto
    ultimately show ?thesis using True a b by simp
  next
    case False
    then have "l1 < l2" using l12 by simp
    then have hl: "h1 \<le> l2" by (simp add: h1_def)
    have "l2 < n" using l2n n by arith
    then have m: "s ! h1 \<le> s ! l2"
      using sorted_nth_mono [OF srt hl] unfolding n_def by blast
    have "(i1 - real l1) * (s ! h1 - s ! l1) \<le> 1 * (s ! h1 - s ! l1)"
      using f1 d1 by (intro mult_right_mono) auto
    then have "a \<le> s ! h1" using a by simp
    moreover have "0 \<le> (i2 - real l2) * (s ! h2 - s ! l2)" using f2 d2 by simp
    then have "s ! l2 \<le> b" using b by simp
    ultimately show ?thesis using m by linarith
  qed
qed

lemma limits_ordered:
  assumes "get_limits \<lparr>lower_percentile = 10, upper_percentile = 99.95\<rparr> img = (Fin vmin, Fin vmax)"
  shows "vmin \<le> vmax"
  using assms percentile_mono [of 10 "99.95" "finite_values (ravel img)" vmin vmax]
  by (simp add: get_limits_def Let_def)

text \<open>
  The sign of \<open>a = vmax / vmin - 1\<close>: positive exactly when \<open>0 < vmin < vmax\<close>, not
  comparable (infinite or NaN) when \<open>vmin = 0\<close>, and otherwise at most zero.
\<close>

lemma stretch_parameter_refused:
  assumes "vmin \<noteq> 0" "vmin \<le> vmax" "\<not> (0 < vmin \<and> vmin < vmax)"
  shows "fle (fsub (fdiv (Fin vmax) (Fin vmin)) (Fin 1)) (Fin 0)"
proof -
  have "vmax / vmin \<le> 1"
  proof (cases "vmin < 0")
    case True
    then show ?thesis using assms(2) by (simp add: divide_le_eq)
  next
    case False
    then have "0 < vmin" "vmax \<le> vmin" using assms by auto
    then show ?thesis by (simp add: divide_le_eq)
  qed
  then show ?thesis using assms(1) by (simp add: fsub_def)
qed

lemma stretch_parameter_accepted:
  assumes "0 < vmin \<and> vmin < vmax \<or> vmin = 0 \<and> 0 \<le> vmax"
  shows "\<not> fle (fsub (fdiv (Fin vmax) (Fin vmin)) (Fin 1)) (Fin 0)"
  using assms by (auto simp: fsub_def inf_of_sign_def field_simps)

lemma logScaleImage_good_pixel:
  assumes lim: "get_limits \<lparr>lower_percentile = 10, upper_percentile = 99.95\<rparr> img = (Fin vmin, Fin vmax)"
    and "vmin < vmax" and ok: "0 < vmin \<or> \<not> checked \<and> vmax < 0"
  shows "\<exists>r. logScaleImage checked img return_full = Inr r
           \<and> (\<forall>i j. i < length (rows img) \<longrightarrow> j < length (rows img ! i) \<longrightarrow> rows img ! i ! j \<noteq> NaN \<longrightarrow>
                rows (the_image r) ! i ! j =
                  Fin (ln (1 + (vmax / vmin - 1) * rescale_ext vmin vmax (rows img ! i ! j))
                       / ln (1 + (vmax / vmin - 1))))"
proof -
  have acc: "\<not> (checked \<and> fle (fsub (fdiv (Fin vmax) (Fin vmin)) (Fin 1)) (Fin 0))"
    using ok stretch_parameter_accepted [of vmin vmax] assms(2) by auto
  from logScaleImage_returns [OF lim acc, of return_full] obtain r where
    r: "logScaleImage checked img return_full = Inr r" "the_image r = amap (scale_pixel (Fin vmin) (Fin vmax)) img"
    by blast
  have sgn: "0 < vmin \<or> vmax < 0" using ok by auto
  have "rows (the_image r) ! i ! j =
      Fin (ln (1 + (vmax / vmin - 1) * rescale_ext vmin vmax (rows img ! i ! j)) / ln (1 + (vmax / vmin - 1)))"
    if "i < length (rows img)" "j < length (rows img ! i)" "rows img ! i ! j \<noteq> NaN" for i j
  proof -
    have "rows (the_image r) ! i ! j = scale_pixel (Fin vmin) (Fin vmax) (rows img ! i ! j)"
      unfolding r(2) by (rule pixel_amap [OF that(1,2)])
    then show ?thesis using scale_pixel_value [OF assms(2) sgn that(3)] by simp
  qed
  then show ?thesis using r(1) by blast
qed

lemma logScaleImage_nan_image:
  assumes lim: "get_limits \<lparr>lower_percentile = 10, upper_percentile = 99.95\<rparr> img = (Fin vmin, Fin vmax)"
    and "vmin \<le> vmax" and "vmin = 0 \<or> \<not> checked \<and> vmin = vmax"
  shows "\<exists>r. logScaleImage checked img return_full = Inr r \<and> the_image r = amap (\<lambda>v. NaN) img"
proof -
  have acc: "\<not> (checked \<and> fle (fsub (fdiv (Fin vmax) (Fin vmin)) (Fin 1)) (Fin 0))"
    using assms(2,3) stretch_parameter_accepted [of vmin vmax] by auto
  from logScaleImage_returns [OF lim acc, of return_full] obtain r where
    r: "logScaleImage checked img return_full = Inr r" "the_image r = amap (scale_pixel (Fin vmin) (Fin vmax)) img"
    by blast
  have "scale_pixel (Fin vmin) (Fin vmax) v = NaN" for v
    using assms(2,3) scale_pixel_zero_low [of vmax v] scale_pixel_equal_limits [of vmin v]
    by (cases "vmin = 0") auto
  then have "scale_pixel (Fin vmin) (Fin vmax) = (\<lambda>v. NaN)" by (intro ext)
  then show ?thesis using r by simp
qed

lemma get_limits_img2:
  "get_limits \<lparr>lower_percentile = 10, upper_percentile = 99.95\<rparr> img2 = (Fin 1, Fin 2)"
  by (simp add: get_limits_def img2_def ravel_def percentile_def Let_def)

lemma get_limits_img_neg:
  "get_limits \<lparr>lower_percentile = 10, upper_percentile = 99.95\<rparr> img_neg = (Fin (- 4), Fin (- 1))"
  by (simp add: get_limits_def img_neg_def ravel_def percentile_def Let_def)

lemma get_limits_img_low0:
  "get_limits \<lparr>lower_percentile = 10, upper_percentile = 99.95\<rparr> img_low0 = (Fin 0, Fin 0.999)"
  by (simp add: get_limits_def img_low0_def ravel_def percentile_def Let_def)

lemma get_limits_img3:
  "get_limits \<lparr>lower_percentile = 10, upper_percentile = 99.95\<rparr> img3 = (Fin 5, Fin 5)"
  by (simp add: get_limits_def img3_def ravel_def percentile_def Let_def)

lemma get_limits_img_zero:
  "get_limits \<lparr>lower_percentile = 10, upper_percentile = 99.95\<rparr> img_zero = (Fin 0, Fin 0)"
  by (simp add: get_limits_def img_zero_def ravel_def percentile_def Let_def)

text \<open>
  Claim C4, as amended. For an image whose limits are finite with \<open>vmin < vmax\<close>:
  if \<open>0 < vmin\<close>, the call returns and every finite pixel of the input is mapped to a
  finite value in \<open>[0, 1]\<close>, a pixel equal to \<open>vmin\<close> to exactly \<open>0\<close> and a pixel equal to
  \<open>vmax\<close> to exactly \<open>1\<close> (the same holds for \<open>vmax < 0\<close> on a library that does not check
  \<open>a\<close>); if \<open>vmin = 0\<close>, the call returns and the pixel is mapped to NaN; if \<open>vmin < 0\<close>,
  a library that checks \<open>a\<close> raises ValueError.
\<close>

theorem logScaleImage_unit_range:
  assumes "get_limits \<lparr>lower_percentile = 10, upper_percentile = 99.95\<rparr> img = (Fin vmin, Fin vmax)"
    and "vmin < vmax"
    and "i < length (rows img)" and "j < length (rows img ! i)" and "rows img ! i ! j = Fin v"
  shows "(0 < vmin \<or> \<not> checked \<and> vmax < 0 \<longrightarrow>
            (\<exists>r y. logScaleImage checked img return_full = Inr r
               \<and> rows (the_image r) ! i ! j = Fin y \<and> 0 \<le> y \<and> y \<le> 1
               \<and> (v = vmin \<longrightarrow> y = 0) \<and> (v = vmax \<longrightarrow> y = 1)))
       \<and> (vmin = 0 \<longrightarrow>
            (\<exists>r. logScaleImage checked img return_full = Inr r \<and> rows (the_image r) ! i ! j = NaN))
       \<and> (checked \<and> vmin < 0 \<longrightarrow> logScaleImage checked img return_full = Inl ValueError)"
proof (intro conjI impI)
  assume ok: "0 < vmin \<or> \<not> checked \<and> vmax < 0"
  define a where "a = vmax / vmin - 1"
  define u where "u = rescale vmin vmax v"
  define y where "y = ln (1 + a * u) / ln (1 + a)"
  from logScaleImage_good_pixel [OF assms(1,2) ok, of return_full] obtain r where
    r: "logScaleImage checked img return_full = Inr r" and px: "rows (the_image r) ! i ! j = Fin y"
    using assms(3,4,5) by (auto simp: y_def a_def u_def)
  have a: "0 < 1 + a" "a \<noteq> 0" using assms(2) ok by (auto simp: a_def field_simps)
  have u: "0 \<le> u" "u \<le> 1" by (auto simp: u_def rescale_def)
  have rng: "0 \<le> y \<and> y \<le> 1" unfolding y_def using stretch_range [OF a u] .
  have lo: "y = 0" if "v = vmin" using that by (simp add: y_def u_def rescale_def)
  have hi: "y = 1" if "v = vmax"
  proof -
    have "u = 1" using that assms(2) by (simp add: u_def rescale_def)
    moreover have "ln (1 + a) \<noteq> 0" using a by simp
    ultimately show ?thesis by (simp add: y_def)
  qed
  show "\<exists>r y. logScaleImage checked img return_full = Inr r
               \<and> rows (the_image r) ! i ! j = Fin y \<and> 0 \<le> y \<and> y \<le> 1
               \<and> (v = vmin \<longrightarrow> y = 0) \<and> (v = vmax \<longrightarrow> y = 1)"
    using r px rng lo hi by blast
next
  assume z: "vmin = 0"
  from logScaleImage_nan_image [OF assms(1), of checked return_full] obtain r where
    "logScaleImage checked img return_full = Inr r" "the_image r = amap (\<lambda>v. NaN) img"
    using z assms(2) by auto
  then show "\<exists>r. logScaleImage checked img return_full = Inr r \<and> rows (the_image r) ! i ! j = NaN"
    using pixel_amap [OF assms(3,4), of "\<lambda>v. NaN"] by auto
next
  assume c: "checked \<and> vmin < 0"
  then have "fle (fsub (fdiv (Fin vmax) (Fin vmin)) (Fin 1)) (Fin 0)"
    using stretch_parameter_refused [of vmin vmax] assms(2) by auto
  then show "logScaleImage checked img return_full = Inl ValueError"
    using logScaleImage_raises [OF assms(1)] c by blast
qed


lemma logScaleImage_img_low0:
  "logScaleImage checked img_low0 False = Inr (Image \<lparr>nrows = 1, ncols = 3, rows = [[NaN, NaN, NaN]]\<rparr>)"
proof -
  from logScaleImage_nan_image [OF get_limits_img_low0, of checked False] obtain r where
    r: "logScaleImage checked img_low0 False = Inr r" "the_image r = amap (\<lambda>v. NaN) img_low0"
    by auto
  have "r = Image (the_image r)"
    using r(1) by (auto simp: logScaleImage_def Let_def the_image_def split: prod.splits sum.splits)
  then show ?thesis using r by (simp add: amap_def img_low0_def)
qed

lemma logScaleImage_img_zero:
  "logScaleImage checked img_zero False =
     Inr (Image \<lparr>nrows = 2, ncols = 2, rows = [[NaN, NaN], [NaN, NaN]]\<rparr>)"
proof -
  from logScaleImage_nan_image [OF get_limits_img_zero, of checked False] obtain r where
    r: "logScaleImage checked img_zero False = Inr r" "the_image r = amap (\<lambda>v. NaN) img_zero"
    by auto
  have "r = Image (the_image r)"
    using r(1) by (auto simp: logScaleImage_def Let_def the_image_def split: prod.splits sum.splits)
  then show ?thesis using r by (simp add: amap_def img_zero_def)
qed

text \<open>
  The theorem at the image \<open>[[1, 2], [2, 1]]\<close>, whose limits are \<open>1\<close> and \<open>2\<close> (the pixel
  \<open>1\<close> goes to \<open>0\<close> and the pixel \<open>2\<close> to \<open>1\<close>), and at the image \<open>[[-4, -4], [-1, -1]]\<close>,
  whose limits are \<open>-4\<close> and \<open>-1\<close> (ValueError with the check; without it the
  pixel \<open>-4\<close> goes to \<open>0\<close>).
\<close>

theorem logScaleImage_unit_range_witness:
  "get_limits \<lparr>lower_percentile = 10, upper_percentile = 99.95\<rparr> img2 = (Fin 1, Fin 2)
   \<and> rows img2 ! 0 ! 0 = Fin 1 \<and> rows img2 ! 0 ! 1 = Fin 2
   \<and> (\<exists>r. logScaleImage True img2 False = Inr r \<and> rows (the_image r) ! 0 ! 0 = Fin 0)
   \<and> (\<exists>r. logScaleImage True img2 False = Inr r \<and> rows (the_image r) ! 0 ! 1 = Fin 1)
   \<and> get_limits \<lparr>lower_percentile = 10, upper_percentile = 99.95\<rparr> img_neg = (Fin (- 4), Fin (- 1))
   \<and> rows img_neg ! 0 ! 0 = Fin (- 4)
   \<and> logScaleImage True img_neg False = Inl ValueError
   \<and> (\<exists>r. logScaleImage False img_neg False = Inr r \<and> rows (the_image r) ! 0 ! 0 = Fin 0)"
proof -
  have r: "rows img2 = [[Fin 1, Fin 2], [Fin 2, Fin 1]]" by (simp add: img2_def)
  have n: "rows img_neg = [[Fin (- 4), Fin (- 4)], [Fin (- 1), Fin (- 1)]]" by (simp add: img_neg_def)
  have a: "\<exists>r. logScaleImage True img2 False = Inr r \<and> rows (the_image r) ! 0 ! 0 = Fin 0"
    using logScaleImage_unit_range [OF get_limits_img2, of 0 0 1 True False] by (auto simp: r)
  have b: "\<exists>r. logScaleImage True img2 False = Inr r \<and> rows (the_image r) ! 0 ! 1 = Fin 1"
    using logScaleImage_unit_range [OF get_limits_img2, of 0 1 2 True False] by (auto simp: r)
  have c: "logScaleImage True img_neg False = Inl ValueError"
    using logScaleImage_unit_range [OF get_limits_img_neg, of 0 0 "- 4" True False] by (simp add: n)
  have d: "\<exists>r. logScaleImage False img_neg False = Inr r \<and> rows (the_image r) ! 0 ! 0 = Fin 0"
    using logScaleImage_unit_range [OF get_limits_img_neg, of 0 0 "- 4" False False] by (auto simp: n)
  show ?thesis using a b c d get_limits_img2 get_limits_img_neg by (simp add: r n)
qed

text \<open>
  Claim C4 as stated fails when \<open>vmin = 0\<close>. For the image \<open>[[0, 0, 1]]\<close> the limits are
  \<open>0\<close> and \<open>0.999\<close>, so \<open>a = vmax / vmin - 1\<close> is infinite; the check lets it pass, and
  every pixel, the one equal to \<open>vmin\<close> included, is mapped to NaN, on either library.
\<close>

theorem logScaleImage_unit_range_counterexample:
  "get_limits \<lparr>lower_percentile = 10, upper_percentile = 99.95\<rparr> img_low0 = (Fin 0, Fin 0.999)
   \<and> rows img_low0 ! 0 ! 0 = Fin 0
   \<and> logScaleImage True img_low0 False =
       Inr (Image \<lparr>nrows = 1, ncols = 3, rows = [[NaN, NaN, NaN]]\<rparr>)
   \<and> logScaleImage False img_low0 False =
       Inr (Image \<lparr>nrows = 1, ncols = 3, rows = [[NaN, NaN, NaN]]\<rparr>)"
  using get_limits_img_low0 by (simp add: logScaleImage_img_low0) (simp add: img_low0_def)

text \<open>
  Claim C5, as amended. For an image whose limits are finite and two of its pixels with
  \<open>v1 \<le> v2\<close> (infinite values included): if \<open>0 < vmin < vmax\<close>, the call returns and the
  output at the first is less than or equal to the output at the second (the same holds
  for \<open>vmin < vmax < 0\<close> on a library that does not check \<open>a\<close>); if \<open>vmin\<close> is not zero and
  \<open>0 < vmin < vmax\<close> does not hold, a library that checks \<open>a\<close> raises ValueError and
  there is no output.
\<close>

theorem logScaleImage_monotone:
  assumes "get_limits \<lparr>lower_percentile = 10, upper_percentile = 99.95\<rparr> img = (Fin vmin, Fin vmax)"
    and "i < length (rows img)" and "j < length (rows img ! i)"
    and "k < length (rows img)" and "l < length (rows img ! k)"
    and "fle (rows img ! i ! j) (rows img ! k ! l)"
  shows "(vmin < vmax \<and> (0 < vmin \<or> \<not> checked \<and> vmax < 0) \<longrightarrow>
            (\<exists>r. logScaleImage checked img return_full = Inr r
               \<and> fle (rows (the_image r) ! i ! j) (rows (the_image r) ! k ! l)))
       \<and> (checked \<and> vmin \<noteq> 0 \<and> \<not> (0 < vmin \<and> vmin < vmax) \<longrightarrow>
            logScaleImage checked img return_full = Inl ValueError)"
proof (intro conjI impI)
  assume h: "vmin < vmax \<and> (0 < vmin \<or> \<not> checked \<and> vmax < 0)"
  then have lt: "vmin < vmax" and ok: "0 < vmin \<or> \<not> checked \<and> vmax < 0" by auto
  define a where "a = vmax / vmin - 1"
  have a: "0 < 1 + a" "a \<noteq> 0" using lt ok by (auto simp: a_def field_simps)
  have nn: "rows img ! i ! j \<noteq> NaN" "rows img ! k ! l \<noteq> NaN"
    using assms(6) by (cases "rows img ! i ! j"; cases "rows img ! k ! l"; simp)+
  from logScaleImage_good_pixel [OF assms(1) lt ok, of return_full] obtain r where
    r: "logScaleImage checked img return_full = Inr r"
    and p1: "rows (the_image r) ! i ! j = Fin (ln (1 + a * rescale_ext vmin vmax (rows img ! i ! j)) / ln (1 + a))"
    and p2: "rows (the_image r) ! k ! l = Fin (ln (1 + a * rescale_ext vmin vmax (rows img ! k ! l)) / ln (1 + a))"
    using assms(2-5) nn unfolding a_def by blast
  have "ln (1 + a * rescale_ext vmin vmax (rows img ! i ! j)) / ln (1 + a)
      \<le> ln (1 + a * rescale_ext vmin vmax (rows img ! k ! l)) / ln (1 + a)"
    using stretch_mono [OF a] rescale_ext_mono [OF lt assms(6)] rescale_ext_range by blast
  then show "\<exists>r. logScaleImage checked img return_full = Inr r
               \<and> fle (rows (the_image r) ! i ! j) (rows (the_image r) ! k ! l)"
    using r p1 p2 by simp
next
  assume c: "checked \<and> vmin \<noteq> 0 \<and> \<not> (0 < vmin \<and> vmin < vmax)"
  then have "fle (fsub (fdiv (Fin vmax) (Fin vmin)) (Fin 1)) (Fin 0)"
    using stretch_parameter_refused [of vmin vmax] limits_ordered [OF assms(1)] by auto
  then show "logScaleImage checked img return_full = Inl ValueError"
    using logScaleImage_raises [OF assms(1)] c by blast
qed

text \<open>
  The theorem at the pixels \<open>1\<close> and \<open>2\<close> of the image \<open>[[1, 2], [2, 1]]\<close>, and at the
  constant image \<open>[[5, 5], [5, 5]]\<close> (ValueError).
\<close>

theorem logScaleImage_monotone_witness:
  "get_limits \<lparr>lower_percentile = 10, upper_percentile = 99.95\<rparr> img2 = (Fin 1, Fin 2)
   \<and> fle (rows img2 ! 0 ! 0) (rows img2 ! 0 ! 1)
   \<and> (\<exists>r. logScaleImage True img2 False = Inr r
          \<and> fle (rows (the_image r) ! 0 ! 0) (rows (the_image r) ! 0 ! 1))
   \<and> get_limits \<lparr>lower_percentile = 10, upper_percentile = 99.95\<rparr> img3 = (Fin 5, Fin 5)
   \<and> logScaleImage True img3 False = Inl ValueError"
proof -
  have r: "rows img2 = [[Fin 1, Fin 2], [Fin 2, Fin 1]]" by (simp add: img2_def)
  have c: "rows img3 = [[Fin 5, Fin 5], [Fin 5, Fin 5]]" by (simp add: img3_def)
  have a: "\<exists>r. logScaleImage True img2 False = Inr r
          \<and> fle (rows (the_image r) ! 0 ! 0) (rows (the_image r) ! 0 ! 1)"
    using logScaleImage_monotone [OF get_limits_img2, of 0 0 0 1 True False] by (simp add: r)
  have b: "logScaleImage True img3 False = Inl ValueError"
    using logScaleImage_monotone [OF get_limits_img3, of 0 0 0 1 True False] by (simp add: c)
  show ?thesis using a b get_limits_img2 get_limits_img3 by (simp add: r)
qed

text \<open>
  Claim C5 as stated fails for the image \<open>[[0, 0, 1]]\<close>, with limits \<open>0\<close> and \<open>0.999\<close>: its
  pixels \<open>0 \<le> 1\<close> are both mapped to NaN, on either library, and a comparison with NaN
  is false.
\<close>

theorem logScaleImage_monotone_counterexample:
  "rows img_low0 ! 0 ! 0 = Fin 0 \<and> rows img_low0 ! 0 ! 2 = Fin 1
   \<and> logScaleImage True img_low0 False =
       Inr (Image \<lparr>nrows = 1, ncols = 3, rows = [[NaN, NaN, NaN]]\<rparr>)
   \<and> logScaleImage False img_low0 False =
       Inr (Image \<lparr>nrows = 1, ncols = 3, rows = [[NaN, NaN, NaN]]\<rparr>)
   \<and> \<not> fle (rows \<lparr>nrows = 1, ncols = 3, rows = [[NaN, NaN, NaN]]\<rparr> ! 0 ! 0)
            (rows \<lparr>nrows = 1, ncols = 3, rows = [[NaN, NaN, NaN]]\<rparr> ! 0 ! 2)"
  by (simp add: logScaleImage_img_low0) (simp add: img_low0_def)

text \<open>
  Claim C2, as amended. \<open>logScaleImage\<close> has no check of its own. When the limits are
  finite and \<open>vmin \<ge> vmax\<close> (the percentiles 10 and 99.95 are ordered, so this is
  \<open>vmin = vmax\<close>, as for a constant image): if the common value is not zero, a library
  that checks \<open>a\<close> raises ValueError (\<open>a = 0\<close>); if it is zero (\<open>a\<close> is NaN), or on a
  library that does not check \<open>a\<close>, nothing is raised and the call returns an image of the
  input's shape in which every pixel is NaN.
\<close>

theorem logScaleImage_degenerate:
  assumes "get_limits \<lparr>lower_percentile = 10, upper_percentile = 99.95\<rparr> img = (Fin vmin, Fin vmax)"
    and "vmax \<le> vmin"
  shows "(checked \<and> vmin \<noteq> 0 \<longrightarrow> logScaleImage checked img return_full = Inl ValueError)
       \<and> (vmin = 0 \<or> \<not> checked \<longrightarrow>
            (\<exists>r. logScaleImage checked img return_full = Inr r \<and> the_image r = amap (\<lambda>v. NaN) img))"
proof (intro conjI impI)
  have eq: "vmin = vmax" using limits_ordered [OF assms(1)] assms(2) by simp
  {
    assume c: "checked \<and> vmin \<noteq> 0"
    then have "fle (fsub (fdiv (Fin vmax) (Fin vmin)) (Fin 1)) (Fin 0)"
      using stretch_parameter_refused [of vmin vmax] eq by auto
    then show "logScaleImage checked img return_full = Inl ValueError"
      using logScaleImage_raises [OF assms(1)] c by blast
  }
  {
    assume "vmin = 0 \<or> \<not> checked"
    then show "\<exists>r. logScaleImage checked img return_full = Inr r \<and> the_image r = amap (\<lambda>v. NaN) img"
      using logScaleImage_nan_image [OF assms(1), of checked return_full] eq by auto
  }
qed

text \<open>
  The theorem at the constant image \<open>[[5, 5], [5, 5]]\<close>: ValueError with the check, an
  all-NaN image without it.
\<close>

theorem logScaleImage_degenerate_witness:
  "get_limits \<lparr>lower_percentile = 10, upper_percentile = 99.95\<rparr> img3 = (Fin 5, Fin 5)
   \<and> logScaleImage True img3 False = Inl ValueError
   \<and> (\<exists>r. logScaleImage False img3 False = Inr r
          \<and> the_image r = \<lparr>nrows = 2, ncols = 2, rows = [[NaN, NaN], [NaN, NaN]]\<rparr>)"
  using logScaleImage_degenerate [OF get_limits_img3, of True False]
    logScaleImage_degenerate [OF get_limits_img3, of False False] get_limits_img3
  by (simp add: amap_def img3_def)

text \<open>
  Claim C2 as stated fails: for the zero image \<open>[[0, 0], [0, 0]]\<close> the limits are
  \<open>vmin = vmax = 0\<close>, and \<open>logScaleImage\<close> returns an image, all NaN, instead of raising,
  on either library.
\<close>

theorem logScaleImage_degenerate_counterexample:
  "get_limits \<lparr>lower_percentile = 10, upper_percentile = 99.95\<rparr> img_zero = (Fin 0, Fin 0)
   \<and> logScaleImage True img_zero False =
       Inr (Image \<lparr>nrows = 2, ncols = 2, rows = [[NaN, NaN], [NaN, NaN]]\<rparr>)
   \<and> logScaleImage False img_zero False =
       Inr (Image \<lparr>nrows = 2, ncols = 2, rows = [[NaN, NaN], [NaN, NaN]]\<rparr>)"
  using get_limits_img_zero by (simp add: logScaleImage_img_zero)
section \<open>Properties of the covariance ellipse\<close>

subsection \<open>Singular values of a 2 x 2 matrix\<close>

lemma mdet_mmul: "mdet (mmul A B) = mdet A * mdet B"
  by (simp add: mdet_def mmul_def algebra_simps)

lemma unitary_eqs:
  assumes "unitary U"
  shows "(m00 U)^2 + (m10 U)^2 = 1" "(m01 U)^2 + (m11 U)^2 = 1" "m00 U * m01 U + m10 U * m11 U = 0"
        "(m00 U)^2 + (m01 U)^2 = 1" "(m10 U)^2 + (m11 U)^2 = 1" "m00 U * m10 U + m01 U * m11 U = 0"
  using assms by (simp_all add: unitary_def mmul_def mtrans_def mident_def power2_eq_square)

lemma frob_unitary_left:
  assumes "unitary U"
  shows "frob (mmul U B) = frob B"
proof -
  note e = unitary_eqs [OF assms]
  have "frob (mmul U B) =
      ((m00 U)^2 + (m10 U)^2) * ((m00 B)^2 + (m01 B)^2)
    + ((m01 U)^2 + (m11 U)^2) * ((m10 B)^2 + (m11 B)^2)
    + 2 * (m00 U * m01 U + m10 U * m11 U) * (m00 B * m10 B + m01 B * m11 B)"
    by (simp add: frob_def mmul_def power2_eq_square algebra_simps)
  then show ?thesis by (simp add: e frob_def)
qed

lemma frob_unitary_right:
  assumes "unitary V"
  shows "frob (mmul B V) = frob B"
proof -
  note e = unitary_eqs [OF assms]
  have "frob (mmul B V) =
      ((m00 V)^2 + (m01 V)^2) * ((m00 B)^2 + (m10 B)^2)
    + ((m10 V)^2 + (m11 V)^2) * ((m01 B)^2 + (m11 B)^2)
    + 2 * (m00 V * m10 V + m01 V * m11 V) * (m00 B * m01 B + m10 B * m11 B)"
    by (simp add: frob_def mmul_def power2_eq_square algebra_simps)
  then show ?thesis by (simp add: e frob_def)
qed

lemma mdet_unitary: assumes "unitary U" shows "\<bar>mdet U\<bar> = 1"
proof -
  have "mdet (mmul (mtrans U) U) = 1" using assms by (simp add: unitary_def mdet_def mident_def)
  then have "mdet U * mdet U = 1" by (simp add: mdet_mmul) (simp add: mdet_def mtrans_def mult.commute)
  then have "\<bar>mdet U\<bar> * \<bar>mdet U\<bar> = 1" by (simp add: abs_mult [symmetric])
  then have "\<bar>mdet U\<bar>\<^sup>2 = 1" by (simp add: power2_eq_square)
  then show ?thesis by (auto simp: power2_eq_1_iff)
qed

lemma svd_frob:
  assumes "is_svd A (U, (s1, s2), Vh)"
  shows "s1^2 + s2^2 = frob A" "s1 * s2 = \<bar>mdet A\<bar>"
proof -
  have u: "unitary U" "unitary Vh" and s: "0 \<le> s2" "s2 \<le> s1"
    and A: "A = mmul (mmul U (mdiag (s1, s2))) Vh"
    using assms by (simp_all add: is_svd_def)
  show "s1^2 + s2^2 = frob A"
    by (simp add: A frob_unitary_right [OF u(2)] frob_unitary_left [OF u(1)]) (simp add: frob_def mdiag_def)
  have "\<bar>mdet A\<bar> = \<bar>mdet (mdiag (s1, s2))\<bar>"
    using mdet_unitary [OF u(1)] mdet_unitary [OF u(2)] by (simp add: A mdet_mmul abs_mult)
  also have "\<dots> = s1 * s2" using s by (simp add: mdet_def mdiag_def)
  finally show "s1 * s2 = \<bar>mdet A\<bar>" by simp
qed

text \<open>
  Two ordered pairs of non-negative numbers with the same sum of squares and the same
  product are equal: the singular values are determined by the matrix.
\<close>

lemma ordered_pair_unique:
  fixes s1 s2 m1 m2 :: real
  assumes "0 \<le> s2" "s2 \<le> s1" "0 \<le> m2" "m2 \<le> m1"
    and sq: "s1^2 + s2^2 = m1^2 + m2^2" and pr: "s1 * s2 = m1 * m2"
  shows "s1 = m1 \<and> s2 = m2"
proof -
  have "(s1 + s2)^2 = (m1 + m2)^2" using sq pr by (simp add: power2_sum)
  then have p: "s1 + s2 = m1 + m2" using assms(1-4) by simp
  have "(s1 - s2)^2 = (m1 - m2)^2" using sq pr by (simp add: power2_diff)
  then have m: "s1 - s2 = m1 - m2" using assms(1-4) by simp
  show ?thesis using p m by linarith
qed

lemma eigvals_sum_prod:
  assumes "symmetric A" "eigvals A = (l1, l2)"
  shows "l1^2 + l2^2 = frob A" "l1 * l2 = mdet A" "l2 \<le> l1" "l1 + l2 = m00 A + m11 A"
proof -
  define r where "r = sqrt (((m00 A - m11 A) / 2)^2 + (m01 A)^2)"
  have l: "l1 = (m00 A + m11 A) / 2 + r" "l2 = (m00 A + m11 A) / 2 - r"
    using assms(2) by (simp_all add: eigvals_def Let_def r_def)
  have r0: "0 \<le> r" by (simp add: r_def)
  have r2: "r^2 = ((m00 A - m11 A) / 2)^2 + (m01 A)^2" by (simp add: r_def)
  have s: "m10 A = m01 A" using assms(1) by (simp add: symmetric_def)
  have "l1^2 + l2^2 = (m00 A + m11 A)^2 / 2 + 2 * r^2"
    by (simp add: l power2_eq_square algebra_simps)
  also have "\<dots> = frob A" unfolding r2 by (simp add: frob_def s power2_eq_square field_simps)
  finally show "l1^2 + l2^2 = frob A" .
  have "l1 * l2 = ((m00 A + m11 A) / 2)^2 - r^2" by (simp add: l power2_eq_square algebra_simps)
  also have "\<dots> = mdet A" unfolding r2 by (simp add: mdet_def s power2_eq_square field_simps)
  finally show "l1 * l2 = mdet A" .
  show "l2 \<le> l1" using r0 by (simp add: l)
  show "l1 + l2 = m00 A + m11 A" by (simp add: l)
qed

text \<open>The singular values of a symmetric matrix are the magnitudes of its eigenvalues.\<close>

lemma svd_symmetric_singular_values:
  assumes "symmetric A" "is_svd A (U, (s1, s2), Vh)" "eigvals A = (l1, l2)"
  shows "s1 = max (abs l1) (abs l2) \<and> s2 = min (abs l1) (abs l2)"
proof (rule ordered_pair_unique)
  note e = eigvals_sum_prod [OF assms(1,3)]
  note f = svd_frob [OF assms(2)]
  show "0 \<le> s2" "s2 \<le> s1" using assms(2) by (simp_all add: is_svd_def)
  show "0 \<le> min (abs l1) (abs l2)" "min (abs l1) (abs l2) \<le> max (abs l1) (abs l2)" by auto
  have "(max (abs l1) (abs l2))^2 + (min (abs l1) (abs l2))^2 = l1^2 + l2^2"
    by (cases "(abs l1) \<le> (abs l2)") (simp_all add: max_def min_def)
  then show "s1^2 + s2^2 = (max (abs l1) (abs l2))^2 + (min (abs l1) (abs l2))^2" using e f by simp
  have "max (abs l1) (abs l2) * min (abs l1) (abs l2) = abs (l1 * l2)"
    by (cases "(abs l1) \<le> (abs l2)") (simp_all add: max_def min_def abs_mult mult.commute)
  then show "s1 * s2 = max (abs l1) (abs l2) * min (abs l1) (abs l2)" using e f by simp
qed

lemma psd_eigvals_nonneg:
  assumes "psd A" "eigvals A = (l1, l2)"
  shows "0 \<le> l2" "l2 \<le> l1"
proof -
  have sym: "symmetric A" using assms(1) by (simp add: psd_def)
  note e = eigvals_sum_prod [OF sym assms(2)]
  show "l2 \<le> l1" by (rule e)
  have "0 \<le> mdet A" using assms(1) by (auto simp: psd_def mdet_def symmetric_def power2_eq_square)
  then have pr: "0 \<le> l1 * l2" using e by simp
  have sm: "0 \<le> l1 + l2" using assms(1) e by (simp add: psd_def)
  show "0 \<le> l2"
  proof (rule ccontr)
    assume "\<not> 0 \<le> l2"
    then have n: "l2 < 0" by simp
    then have "0 < l1" using sm by linarith
    then have "l1 * l2 < 0" using n by (simp add: mult_pos_neg)
    then show False using pr by simp
  qed
qed

lemma svd_psd_trace_det:
  assumes "psd A" "is_svd A (U, (s1, s2), Vh)"
  shows "s1 + s2 = m00 A + m11 A" "s1 * s2 = m00 A * m11 A - (m01 A)^2"
proof -
  obtain l1 l2 where l: "eigvals A = (l1, l2)" by (cases "eigvals A")
  have sym: "symmetric A" using assms(1) by (simp add: psd_def)
  note n = psd_eigvals_nonneg [OF assms(1) l]
  note e = eigvals_sum_prod [OF sym l]
  have "s1 = l1 \<and> s2 = l2" using svd_symmetric_singular_values [OF sym assms(2) l] n by simp
  then show "s1 + s2 = m00 A + m11 A" "s1 * s2 = m00 A * m11 A - (m01 A)^2"
    using e sym by (auto simp: mdet_def symmetric_def power2_eq_square)
qed

subsection \<open>The first singular vector of a covariance matrix\<close>

lemma mmul_assoc: "mmul (mmul A B) C = mmul A (mmul B C)"
  by (simp add: mmul_def algebra_simps)

lemma mtrans_mmul: "mtrans (mmul A B) = mmul (mtrans B) (mtrans A)"
  by (simp add: mmul_def mtrans_def algebra_simps)

lemma mmul_mident: "mmul A mident = A" "mmul mident A = A"
  by (simp_all add: mmul_def mident_def)

lemma svd_left_gram:
  assumes "is_svd A (U, (s1, s2), Vh)"
  shows "mmul A (mtrans A) = mmul (mmul U (mdiag (s1^2, s2^2))) (mtrans U)"
proof -
  have u: "mmul Vh (mtrans Vh) = mident"
    and A: "A = mmul (mmul U (mdiag (s1, s2))) Vh"
    using assms by (simp_all add: is_svd_def unitary_def)
  have "mmul A (mtrans A) =
      mmul (mmul U (mdiag (s1, s2))) (mmul (mmul Vh (mtrans Vh)) (mmul (mtrans (mdiag (s1, s2))) (mtrans U)))"
    unfolding A by (simp only: mtrans_mmul mmul_assoc)
  also have "\<dots> = mmul U (mmul (mmul (mdiag (s1, s2)) (mtrans (mdiag (s1, s2)))) (mtrans U))"
    unfolding u by (simp only: mmul_mident mmul_assoc)
  also have "mmul (mdiag (s1, s2)) (mtrans (mdiag (s1, s2))) = mdiag (s1^2, s2^2)"
    by (simp add: mmul_def mdiag_def mtrans_def power2_eq_square)
  finally show ?thesis by (simp only: mmul_assoc)
qed

text \<open>On a unit vector, \<open>arctan2\<close> returns the angle whose cosine and sine are its entries.\<close>

lemma cos_sin_arctan2:
  assumes "x^2 + y^2 = 1"
  shows "cos (arctan2 y x) = x" "sin (arctan2 y x) = y"
proof -
  have sq: "x \<noteq> 0 \<Longrightarrow> sqrt (1 + (y / x)^2) = 1 / abs x"
  proof -
    assume x: "x \<noteq> 0"
    have "1 + (y / x)^2 = (x^2 + y^2) / x^2" using x by (simp add: field_simps power2_eq_square)
    also have "\<dots> = (1 / abs x)^2" using assms by (simp add: power_divide)
    finally show ?thesis by (simp add: real_sqrt_divide)
  qed
  consider "0 < x" | "x < 0" "0 \<le> y" | "x < 0" "y < 0" | "x = 0" by linarith
  then have "cos (arctan2 y x) = x \<and> sin (arctan2 y x) = y"
  proof cases
    case 1
    then show ?thesis using sq by (simp add: arctan2_def cos_arctan sin_arctan)
  next
    case 2
    then show ?thesis using sq by (simp add: arctan2_def cos_arctan sin_arctan)
  next
    case 3
    then show ?thesis using sq by (simp add: arctan2_def cos_arctan sin_arctan)
  next
    case 4
    then have "y^2 = 1" using assms by simp
    then have "y = 1 \<or> y = - 1" by (simp add: power2_eq_1_iff)
    then show ?thesis using 4 by (auto simp: arctan2_def)
  qed
  then show "cos (arctan2 y x) = x" "sin (arctan2 y x) = y" by simp_all
qed

lemma degrees_radians: "degrees r * pi / 180 = r"
  by (simp add: degrees_def)

lemma svd_psd_components:
  assumes "psd A" "is_svd A (U, (s1, s2), Vh)"
  shows "m00 A = s1 * (m00 U)^2 + s2 * (m10 U)^2"
    and "m01 A = (s1 - s2) * (m00 U * m10 U)"
    and "m11 A = s1 * (m10 U)^2 + s2 * (m00 U)^2"
proof -
  define x where "x = m00 U"
  define y where "y = m10 U"
  define a where "a = m00 A"
  define b where "b = m01 A"
  define d where "d = m11 A"
  have sym: "m10 A = b" using assms(1) by (simp add: psd_def symmetric_def b_def)
  have psd: "0 \<le> a" "0 \<le> d" "b^2 \<le> a * d" using assms(1) by (simp_all add: psd_def a_def b_def d_def)
  have u: "unitary U" and s: "0 \<le> s2" "s2 \<le> s1" using assms(2) by (simp_all add: is_svd_def)
  note e = unitary_eqs [OF u]
  have xy: "x^2 + y^2 = 1" using e(1) by (simp add: x_def y_def)
  have c1: "(m01 U)^2 = y^2" using e(4) xy by (simp add: x_def)
  have c2: "(m11 U)^2 = x^2" using e(5) xy by (simp add: y_def)
  have c3: "m01 U * m11 U = - (x * y)" using e(6) by (simp add: x_def y_def)
  note g = svd_left_gram [OF assms(2)]
  have g00: "a^2 + b^2 = s1^2 * x^2 + s2^2 * y^2"
  proof -
    have "m00 (mmul A (mtrans A)) = a^2 + b^2"
      by (simp add: mmul_def mtrans_def a_def b_def power2_eq_square)
    moreover have "m00 (mmul (mmul U (mdiag (s1^2, s2^2))) (mtrans U)) = s1^2 * x^2 + s2^2 * (m01 U)^2"
      by (simp add: mmul_def mtrans_def mdiag_def x_def power2_eq_square)
    ultimately show ?thesis using g c1 by simp
  qed
  have g01: "b * (a + d) = (s1^2 - s2^2) * (x * y)"
  proof -
    have "m01 (mmul A (mtrans A)) = b * (a + d)"
      by (simp add: mmul_def mtrans_def a_def sym d_def b_def algebra_simps)
    moreover have "m01 (mmul (mmul U (mdiag (s1^2, s2^2))) (mtrans U)) = s1^2 * (x * y) + s2^2 * (m01 U * m11 U)"
      by (simp add: mmul_def mtrans_def mdiag_def x_def y_def algebra_simps)
    ultimately show ?thesis using g c3 by (simp add: algebra_simps)
  qed
  have g11: "b^2 + d^2 = s1^2 * y^2 + s2^2 * x^2"
  proof -
    have "m11 (mmul A (mtrans A)) = b^2 + d^2"
      by (simp add: mmul_def mtrans_def sym d_def power2_eq_square)
    moreover have "m11 (mmul (mmul U (mdiag (s1^2, s2^2))) (mtrans U)) = s1^2 * y^2 + s2^2 * (m11 U)^2"
      by (simp add: mmul_def mtrans_def mdiag_def y_def power2_eq_square)
    ultimately show ?thesis using g c2 by simp
  qed
  have T: "s1 + s2 = a + d" and D: "s1 * s2 = a * d - b^2"
    using svd_psd_trace_det [OF assms] by (simp_all add: a_def b_def d_def)
  have eqs: "a = s1 * x^2 + s2 * y^2 \<and> b = (s1 - s2) * (x * y) \<and> d = s1 * y^2 + s2 * x^2"
  proof (cases "a + d = 0")
    case True
    then have z: "a = 0" "d = 0" using psd by auto
    then have "b^2 \<le> 0" using psd by simp
    then have b0: "b = 0" by simp
    have "s1 = 0" "s2 = 0" using T True s by auto
    then show ?thesis using z b0 by simp
  next
    case False
    have "a * (a + d) = (a^2 + b^2) + (a * d - b^2)" by (simp add: power2_eq_square algebra_simps)
    also have "\<dots> = s1^2 * x^2 + s2^2 * y^2 + s1 * s2 * (x^2 + y^2)" using g00 D xy by simp
    also have "\<dots> = (s1 * x^2 + s2 * y^2) * (s1 + s2)" by (simp add: power2_eq_square algebra_simps)
    finally have "a * (a + d) = (s1 * x^2 + s2 * y^2) * (a + d)" using T by simp
    then have A: "a = s1 * x^2 + s2 * y^2" using False by simp
    have "d * (a + d) = (b^2 + d^2) + (a * d - b^2)" by (simp add: power2_eq_square algebra_simps)
    also have "\<dots> = s1^2 * y^2 + s2^2 * x^2 + s1 * s2 * (x^2 + y^2)" using g11 D xy by simp
    also have "\<dots> = (s1 * y^2 + s2 * x^2) * (s1 + s2)" by (simp add: power2_eq_square algebra_simps)
    finally have "d * (a + d) = (s1 * y^2 + s2 * x^2) * (a + d)" using T by simp
    then have Dd: "d = s1 * y^2 + s2 * x^2" using False by simp
    have "b * (a + d) = ((s1 - s2) * (x * y)) * (s1 + s2)" using g01 by (simp add: power2_eq_square algebra_simps)
    then have "b * (a + d) = ((s1 - s2) * (x * y)) * (a + d)" using T by simp
    then have B: "b = (s1 - s2) * (x * y)" using False by simp
    show ?thesis using A B Dd by simp
  qed
  show "m00 A = s1 * (m00 U)^2 + s2 * (m10 U)^2"
    and "m01 A = (s1 - s2) * (m00 U * m10 U)"
    and "m11 A = s1 * (m10 U)^2 + s2 * (m00 U)^2"
    using eqs by (simp_all add: a_def b_def d_def x_def y_def)
qed

subsection \<open>The claims\<close>

lemma cov_to_ellipse_fields:
  assumes "svd cov = (U, (s1, s2), Vh)" "0 \<le> s2" "s2 \<le> s1"
  shows "cov_to_ellipse svd cov pos =
     \<lparr>xy = pos, width = Fin (2 * sqrt s1), height = Fin (2 * sqrt s2),
      angle = degrees (arctan2 (m10 U) (m00 U))\<rparr>"
  using assms by (simp add: cov_to_ellipse_def np_sqrt_def)

lemma ellipse_to_cov_unit:
  assumes "x^2 + y^2 = 1" "0 \<le> s1" "0 \<le> s2"
  shows "ellipse_to_cov (2 * sqrt s1) (2 * sqrt s2) (degrees (arctan2 y x)) =
     \<lparr>m00 = s1 * x^2 + s2 * y^2, m01 = (s1 - s2) * (x * y),
      m10 = (s1 - s2) * (x * y), m11 = s1 * y^2 + s2 * x^2\<rparr>"
proof -
  have t: "degrees (arctan2 y x) * pi / 180 = arctan2 y x" by (rule degrees_radians)
  have p: "(2 * sqrt s1 / 2)^2 = s1" "(2 * sqrt s2 / 2)^2 = s2" using assms(2,3) by simp_all
  show ?thesis
    unfolding ellipse_to_cov_def Let_def t p cos_sin_arctan2 [OF assms(1)]
    by (simp add: mmul_def mdiag_def mtrans_def power2_eq_square algebra_simps)
qed

text \<open>
  Claim C3. For every positive semi-definite covariance matrix, and every singular value
  decomposition of it that the library may return, \<open>cov_to_ellipse\<close> returns finite
  \<open>width \<ge> height \<ge> 0\<close>, and rotating \<open>diag((width/2)^2, (height/2)^2)\<close> by the returned
  angle gives back the covariance matrix (in exact arithmetic: equality).
\<close>

theorem cov_to_ellipse_round_trip:
  assumes "psd cov" and "is_svd cov (svd cov)"
  shows "\<exists>w h. width (cov_to_ellipse svd cov pos) = Fin w
           \<and> height (cov_to_ellipse svd cov pos) = Fin h
           \<and> 0 \<le> h \<and> h \<le> w
           \<and> ellipse_to_cov w h (angle (cov_to_ellipse svd cov pos)) = cov"
proof -
  obtain U s1 s2 Vh where r: "svd cov = (U, (s1, s2), Vh)" by (metis surj_pair)
  have sv: "is_svd cov (U, (s1, s2), Vh)" using assms(2) r by simp
  have s: "0 \<le> s2" "s2 \<le> s1" and u: "unitary U" using sv by (simp_all add: is_svd_def)
  have xy: "(m00 U)^2 + (m10 U)^2 = 1" using unitary_eqs [OF u] by simp
  note f = cov_to_ellipse_fields [of svd cov, OF r s]
  note c = svd_psd_components [OF assms(1) sv]
  have sym: "m10 cov = m01 cov" using assms(1) by (simp add: psd_def symmetric_def)
  have "ellipse_to_cov (2 * sqrt s1) (2 * sqrt s2) (degrees (arctan2 (m10 U) (m00 U))) = cov"
    using ellipse_to_cov_unit [OF xy, of s1 s2] s c sym by simp
  moreover have "0 \<le> 2 * sqrt s2" "2 * sqrt s2 \<le> 2 * sqrt s1" using s by simp_all
  ultimately show ?thesis by (simp add: f)
qed

lemma is_svd_indef: "is_svd cov_indef (svd_indef cov_indef)"
  by (simp add: is_svd_def svd_indef_def cov_indef_def unitary_def mmul_def mtrans_def mident_def mdiag_def
      field_simps)

lemma is_svd_corr: "is_svd cov_corr (svd_corr cov_corr)"
  by (simp add: is_svd_def svd_corr_def cov_corr_def unitary_def mmul_def mtrans_def mident_def mdiag_def
      field_simps)

lemma is_svd_diag: "is_svd (mdiag (2^2, 1^2)) (svd_diag (mdiag (2^2, 1^2)))"
  by (simp add: is_svd_def svd_diag_def unitary_def mmul_def mtrans_def mident_def mdiag_def)

lemma is_svd_swap: "is_svd cov_swap (svd_swap cov_swap)"
  by (simp add: is_svd_def svd_swap_def cov_swap_def unitary_def mmul_def mtrans_def mident_def mdiag_def)

lemma arctan2_unit: "arctan2 (sqrt 2 / 2) (sqrt 2 / 2) = pi / 4"
  by (simp add: arctan2_def arctan_one)

text \<open>
  The theorem at \<open>cov = [[2, 1], [1, 2]]\<close>: width \<open>2 sqrt 3\<close>, height \<open>2\<close>, angle 45
  degrees, and the ellipse gives the matrix back.
\<close>

theorem cov_to_ellipse_round_trip_witness:
  "psd cov_corr \<and> is_svd cov_corr (svd_corr cov_corr)
   \<and> cov_to_ellipse svd_corr cov_corr (0, 0) =
       \<lparr>xy = (0, 0), width = Fin (2 * sqrt 3), height = Fin 2, angle = 45\<rparr>
   \<and> ellipse_to_cov (2 * sqrt 3) 2 45 = cov_corr"
proof -
  have p: "psd cov_corr" by (simp add: psd_def symmetric_def cov_corr_def)
  have e: "cov_to_ellipse svd_corr cov_corr (0, 0) =
       \<lparr>xy = (0, 0), width = Fin (2 * sqrt 3), height = Fin 2, angle = 45\<rparr>"
    by (simp add: cov_to_ellipse_def svd_corr_def np_sqrt_def arctan2_unit degrees_def)
  show ?thesis
    using cov_to_ellipse_round_trip [where svd = svd_corr and cov = cov_corr and pos = "(0, 0)", OF p is_svd_corr] p is_svd_corr
    by (simp add: e)
qed

text \<open>\<open>eigvals\<close> returns the two roots of the characteristic polynomial.\<close>

lemma eigvals_characteristic:
  assumes "symmetric A" "eigvals A = (l1, l2)" "l = l1 \<or> l = l2"
  shows "(m00 A - l) * (m11 A - l) - m01 A * m10 A = 0"
proof -
  note e = eigvals_sum_prod [OF assms(1,2)]
  have "(m00 A - l) * (m11 A - l) - m01 A * m10 A = l * l - (m00 A + m11 A) * l + mdet A"
    by (simp add: mdet_def algebra_simps)
  also have "\<dots> = l * l - (l1 + l2) * l + l1 * l2" using e(2,4) by simp
  also have "\<dots> = (l - l1) * (l - l2)" by (simp add: algebra_simps)
  finally show ?thesis using assms(3) by auto
qed

text \<open>
  Claim C10. For every real symmetric matrix, indefinite ones included, and every
  singular value decomposition of it, \<open>cov_to_ellipse\<close> returns a finite width and a
  finite height (the square root is never taken of a negative number, so no NaN), with
  \<open>width \<ge> height \<ge> 0\<close>; they are twice the square roots of the larger and the smaller
  eigenvalue magnitude.
\<close>

theorem cov_to_ellipse_total:
  assumes "symmetric cov" and "is_svd cov (svd cov)"
  shows "\<exists>w h. width (cov_to_ellipse svd cov pos) = Fin w
           \<and> height (cov_to_ellipse svd cov pos) = Fin h
           \<and> 0 \<le> h \<and> h \<le> w
           \<and> w = 2 * sqrt (max (abs (fst (eigvals cov))) (abs (snd (eigvals cov))))
           \<and> h = 2 * sqrt (min (abs (fst (eigvals cov))) (abs (snd (eigvals cov))))"
proof -
  obtain U s1 s2 Vh where r: "svd cov = (U, (s1, s2), Vh)" by (metis surj_pair)
  have sv: "is_svd cov (U, (s1, s2), Vh)" using assms(2) r by simp
  have s: "0 \<le> s2" "s2 \<le> s1" using sv by (simp_all add: is_svd_def)
  note f = cov_to_ellipse_fields [of svd cov, OF r s]
  have l: "eigvals cov = (fst (eigvals cov), snd (eigvals cov))" by simp
  note m = svd_symmetric_singular_values [OF assms(1) sv l]
  have "0 \<le> 2 * sqrt s2" "2 * sqrt s2 \<le> 2 * sqrt s1" using s by simp_all
  then show ?thesis using m by (simp add: f)
qed

text \<open>The theorem at the indefinite matrix \<open>[[0, 1], [1, 0]]\<close>, with eigenvalues \<open>1\<close> and \<open>-1\<close>.\<close>

theorem cov_to_ellipse_total_witness:
  "symmetric cov_swap \<and> is_svd cov_swap (svd_swap cov_swap) \<and> eigvals cov_swap = (1, - 1)
   \<and> width (cov_to_ellipse svd_swap cov_swap (0, 0)) = Fin 2
   \<and> height (cov_to_ellipse svd_swap cov_swap (0, 0)) = Fin 2"
proof -
  have sy: "symmetric cov_swap" by (simp add: symmetric_def cov_swap_def)
  have e: "eigvals cov_swap = (1, - 1)" by (simp add: eigvals_def cov_swap_def)
  show ?thesis
    using cov_to_ellipse_total [where svd = svd_swap and cov = cov_swap and pos = "(0, 0)", OF sy is_svd_swap] sy is_svd_swap
    by (auto simp: e)
qed

lemma ellipse_to_cov_trace_det:
  "m00 (ellipse_to_cov w h ang) + m11 (ellipse_to_cov w h ang) = (w / 2)^2 + (h / 2)^2"
  "mdet (ellipse_to_cov w h ang) = (w / 2)^2 * (h / 2)^2"
proof -
  define c where "c = cos (ang * pi / 180)"
  define s where "s = sin (ang * pi / 180)"
  define p where "p = (w / 2)^2"
  define q where "q = (h / 2)^2"
  have cs: "c * c + s * s = 1" using sin_cos_squared_add3 [of "ang * pi / 180"] by (simp add: c_def s_def add.commute)
  have e: "ellipse_to_cov w h ang =
      \<lparr>m00 = p * (c * c) + q * (s * s), m01 = (p - q) * (c * s),
       m10 = (p - q) * (c * s), m11 = p * (s * s) + q * (c * c)\<rparr>"
    by (simp add: ellipse_to_cov_def Let_def mmul_def mdiag_def mtrans_def c_def s_def p_def q_def
        algebra_simps)
  have "m00 (ellipse_to_cov w h ang) + m11 (ellipse_to_cov w h ang) = (p + q) * (c * c + s * s)"
    by (simp add: e algebra_simps)
  then show "m00 (ellipse_to_cov w h ang) + m11 (ellipse_to_cov w h ang) = (w / 2)^2 + (h / 2)^2"
    by (simp add: cs p_def q_def)
  have "mdet (ellipse_to_cov w h ang) = p * q * ((c * c + s * s) * (c * c + s * s))"
    by (simp add: e mdet_def algebra_simps)
  then show "mdet (ellipse_to_cov w h ang) = (w / 2)^2 * (h / 2)^2"
    by (simp add: cs p_def q_def)
qed

text \<open>
  Claim C1, as amended. For a symmetric matrix with a negative eigenvalue
  \<open>cov_to_ellipse\<close> raises nothing: it returns the finite width and height
  \<open>2 sqrt(max |l|)\<close> and \<open>2 sqrt(min |l|)\<close> of the eigenvalue magnitudes, an ellipse
  that does not give the input matrix back.
\<close>

theorem cov_to_ellipse_indefinite:
  assumes "symmetric cov" and "snd (eigvals cov) < 0" and "is_svd cov (svd cov)"
  shows "\<exists>w h. width (cov_to_ellipse svd cov pos) = Fin w
           \<and> height (cov_to_ellipse svd cov pos) = Fin h
           \<and> w = 2 * sqrt (max (abs (fst (eigvals cov))) (abs (snd (eigvals cov))))
           \<and> h = 2 * sqrt (min (abs (fst (eigvals cov))) (abs (snd (eigvals cov))))
           \<and> ellipse_to_cov w h (angle (cov_to_ellipse svd cov pos)) \<noteq> cov"
proof -
  obtain U s1 s2 Vh where r: "svd cov = (U, (s1, s2), Vh)" by (metis surj_pair)
  have sv: "is_svd cov (U, (s1, s2), Vh)" using assms(3) r by simp
  have s: "0 \<le> s2" "s2 \<le> s1" using sv by (simp_all add: is_svd_def)
  note f = cov_to_ellipse_fields [of svd cov, OF r s]
  obtain l1 l2 where l: "eigvals cov = (l1, l2)" by (cases "eigvals cov")
  note m = svd_symmetric_singular_values [OF assms(1) sv l]
  note e = eigvals_sum_prod [OF assms(1) l]
  have neg: "l2 < 0" using assms(2) l by simp
  have ne: "ellipse_to_cov (2 * sqrt s1) (2 * sqrt s2) ang \<noteq> cov" for ang
  proof
    assume eq: "ellipse_to_cov (2 * sqrt s1) (2 * sqrt s2) ang = cov"
    have "0 \<le> m00 cov + m11 cov" "0 \<le> mdet cov"
      using ellipse_to_cov_trace_det [of "2 * sqrt s1" "2 * sqrt s2" ang] s unfolding eq by simp_all
    then have sm: "0 \<le> l1 + l2" and pr: "0 \<le> l1 * l2" using e by simp_all
    have "0 < l1" using sm neg by linarith
    then have "l1 * l2 < 0" using neg by (simp add: mult_pos_neg)
    then show False using pr by simp
  qed
  show ?thesis using m ne by (simp add: f l)
qed

text \<open>The theorem at \<open>cov = [[1, 2], [2, 1]]\<close>, with eigenvalues \<open>3\<close> and \<open>-1\<close>.\<close>

theorem cov_to_ellipse_indefinite_witness:
  "symmetric cov_indef \<and> eigvals cov_indef = (3, - 1) \<and> is_svd cov_indef (svd_indef cov_indef)
   \<and> width (cov_to_ellipse svd_indef cov_indef (0, 0)) = Fin (2 * sqrt 3)
   \<and> height (cov_to_ellipse svd_indef cov_indef (0, 0)) = Fin 2
   \<and> ellipse_to_cov (2 * sqrt 3) 2 (angle (cov_to_ellipse svd_indef cov_indef (0, 0))) \<noteq> cov_indef"
proof -
  have sy: "symmetric cov_indef" by (simp add: symmetric_def cov_indef_def)
  have e: "eigvals cov_indef = (3, - 1)" by (simp add: eigvals_def cov_indef_def)
  have n: "snd (eigvals cov_indef) < 0" by (simp add: e)
  show ?thesis
    using cov_to_ellipse_indefinite [where svd = svd_indef and cov = cov_indef and pos = "(0, 0)",
        OF sy n is_svd_indef] sy is_svd_indef
    by (auto simp: e)
qed

text \<open>
  Claim C1 as stated fails: for \<open>cov = [[1, 2], [2, 1]]\<close> and centre \<open>(0, 0)\<close>
  \<open>cov_to_ellipse\<close> returns an ellipse, of width \<open>2 sqrt 3\<close> and height \<open>2\<close>, instead of
  raising.
\<close>

theorem cov_to_ellipse_indefinite_counterexample:
  "is_svd cov_indef (svd_indef cov_indef)
   \<and> cov_to_ellipse svd_indef cov_indef (0, 0) =
       \<lparr>xy = (0, 0), width = Fin (2 * sqrt 3), height = Fin 2, angle = 45\<rparr>"
  using is_svd_indef
  by (simp add: cov_to_ellipse_def svd_indef_def np_sqrt_def arctan2_unit degrees_def)

text \<open>
  Claim C6. For the diagonal matrix \<open>diag(sx^2, sy^2)\<close> with \<open>sx > sy \<ge> 0\<close>, and every
  singular value decomposition of it, \<open>cov_to_ellipse\<close> returns the centre it was given,
  \<open>width = 2 sx\<close>, \<open>height = 2 sy\<close> and an angle of 0 or 180 degrees (0 modulo 180; the
  library's choice of sign for the first singular vector decides which).
\<close>

theorem cov_to_ellipse_diagonal:
  assumes "0 \<le> sy" and "sy < sx" and "is_svd (mdiag (sx^2, sy^2)) (svd (mdiag (sx^2, sy^2)))"
  shows "xy (cov_to_ellipse svd (mdiag (sx^2, sy^2)) pos) = pos
       \<and> width (cov_to_ellipse svd (mdiag (sx^2, sy^2)) pos) = Fin (2 * sx)
       \<and> height (cov_to_ellipse svd (mdiag (sx^2, sy^2)) pos) = Fin (2 * sy)
       \<and> (angle (cov_to_ellipse svd (mdiag (sx^2, sy^2)) pos) = 0
          \<or> angle (cov_to_ellipse svd (mdiag (sx^2, sy^2)) pos) = 180)"
proof -
  define cov where "cov = mdiag (sx^2, sy^2)"
  obtain U s1 s2 Vh where r: "svd cov = (U, (s1, s2), Vh)" by (metis surj_pair)
  have sv: "is_svd cov (U, (s1, s2), Vh)" using assms(3) r by (simp add: cov_def)
  have s: "0 \<le> s2" "s2 \<le> s1" and u: "unitary U" using sv by (simp_all add: is_svd_def)
  note f = cov_to_ellipse_fields [of svd cov, OF r s]
  have sx: "0 < sx" using assms by simp
  have lt: "sy^2 < sx^2" using assms by (simp add: power_strict_mono)
  have p: "psd cov" by (simp add: cov_def psd_def symmetric_def mdiag_def)
  have "s1 = sx^2 \<and> s2 = sy^2"
  proof (rule ordered_pair_unique [OF s])
    show "0 \<le> sy^2" "sy^2 \<le> sx^2" using lt by simp_all
    show "s1^2 + s2^2 = (sx^2)^2 + (sy^2)^2"
      using svd_frob(1) [OF sv] by (simp add: frob_def cov_def mdiag_def)
    show "s1 * s2 = sx^2 * sy^2"
      using svd_frob(2) [OF sv] by (simp add: mdet_def cov_def mdiag_def)
  qed
  then have s12: "s1 = sx^2" "s2 = sy^2" by simp_all
  have xy: "(m00 U)^2 + (m10 U)^2 = 1" using unitary_eqs [OF u] by simp
  have "sx^2 = sx^2 * (m00 U)^2 + sy^2 * (m10 U)^2"
    using svd_psd_components(1) [OF p sv] by (simp add: cov_def mdiag_def s12)
  also have "\<dots> = sx^2 - (sx^2 - sy^2) * (m10 U)^2"
  proof -
    have h: "(m00 U)^2 = 1 - (m10 U)^2" using xy by simp
    show ?thesis unfolding h by (simp add: algebra_simps)
  qed
  finally have "(sx^2 - sy^2) * (m10 U)^2 = 0" by simp
  then have y: "m10 U = 0" using lt by simp
  then have "m00 U = 1 \<or> m00 U = - 1" using xy by (simp add: power2_eq_1_iff)
  then have "arctan2 (m10 U) (m00 U) = 0 \<or> arctan2 (m10 U) (m00 U) = pi"
    using y by (auto simp: arctan2_def)
  then have "degrees (arctan2 (m10 U) (m00 U)) = 0 \<or> degrees (arctan2 (m10 U) (m00 U)) = 180"
    by (auto simp: degrees_def)
  moreover have "sqrt (sx^2) = sx" "sqrt (sy^2) = sy" using assms sx by simp_all
  ultimately show ?thesis unfolding cov_def [symmetric] by (auto simp: f s12)
qed

text \<open>
  The theorem at \<open>cov = [[4, 0], [0, 1]]\<close> and centre \<open>(2, 3)\<close>, with the decomposition
  \<open>U = Vh = I\<close>: centre \<open>(2, 3)\<close>, width 4, height 2, angle 0.
\<close>

theorem cov_to_ellipse_diagonal_witness:
  "(0::real) \<le> 1 \<and> (1::real) < 2 \<and> is_svd (mdiag (2^2, 1^2)) (svd_diag (mdiag (2^2, 1^2)))
   \<and> mdiag (2^2, 1^2) = \<lparr>m00 = 4, m01 = 0, m10 = 0, m11 = 1\<rparr>
   \<and> cov_to_ellipse svd_diag (mdiag (2^2, 1^2)) (2, 3) =
       \<lparr>xy = (2, 3), width = Fin 4, height = Fin 2, angle = 0\<rparr>"
proof -
  have a: "(0::real) \<le> 1" "(1::real) < 2" by simp_all
  have e: "cov_to_ellipse svd_diag (mdiag (2^2, 1^2)) (2, 3) =
       \<lparr>xy = (2, 3), width = Fin 4, height = Fin 2, angle = 0\<rparr>"
    by (simp add: cov_to_ellipse_def svd_diag_def np_sqrt_def arctan2_def degrees_def mident_def)
  have m: "mdiag (2^2, 1^2) = \<lparr>m00 = 4, m01 = 0, m10 = 0, m11 = 1\<rparr>"
    by (simp add: mdiag_def)
  show ?thesis
    using cov_to_ellipse_diagonal [where svd = svd_diag and pos = "(2, 3)", OF a is_svd_diag]
      is_svd_diag e m
    by simp
qed

text \<open>
  The matrices \<open>plot_ellipse\<close> builds from a table row are positive semi-definite when
  the correlation coefficient is in \<open>[-1, 1]\<close>.
\<close>

lemma row_cov_psd:
  assumes "abs pxy \<le> 1"
  shows "psd (row_cov sx sy pxy)"
proof -
  have "pxy^2 \<le> 1" using assms by (simp add: abs_square_le_1)
  then have "pxy^2 * (sx^2 * sy^2) \<le> 1 * (sx^2 * sy^2)" by (intro mult_right_mono) simp_all
  then have "(pxy * sx * sy)^2 \<le> sx^2 * sy^2" by (simp add: power_mult_distrib)
  then show ?thesis by (simp add: psd_def symmetric_def row_cov_def)
qed
section \<open>Properties of the colour compositing\<close>

lemma map_upt_const: "(\<And>i. i < n \<Longrightarrow> f i = c) \<Longrightarrow> map f [0..<n] = replicate n c"
  by (induction n) (auto simp: replicate_append_same)

lemma map2_replicate: "map2 f (replicate n x) (replicate n y) = replicate n (f x y)"
  by (induction n) auto

lemma stretch_same_length: "length xs = n \<Longrightarrow> stretch n xs = xs"
  by (induction n xs rule: stretch.induct) auto

lemma bdim_same: "bdim d d = Some d"
  by (simp add: bdim_def)

lemma broadcast2_const:
  "broadcast2 f \<lparr>nrows = n, ncols = m, rows = replicate n (replicate m x)\<rparr>
                \<lparr>nrows = n, ncols = m, rows = replicate n (replicate m y)\<rparr>
   = Inr \<lparr>nrows = n, ncols = m, rows = replicate n (replicate m (f x y))\<rparr>"
  by (simp add: broadcast2_def bdim_same stretch_same_length map2_replicate)

lemma amap_const:
  "amap f \<lparr>nrows = n, ncols = m, rows = replicate n (replicate m x)\<rparr>
   = \<lparr>nrows = n, ncols = m, rows = replicate n (replicate m (f x))\<rparr>"
  by (simp add: amap_def)

text \<open>
  Two all-ones images of any shape \<open>n x m\<close>, coloured red and green: every pixel of the
  composite is yellow, \<open>(1, 1, 0)\<close>, and the inputs are as they were.
\<close>

lemma colorize_ones_red_green:
  "colorize [ones n m, ones n m] [(1, 0, 0), (0, 1, 0)] =
     ([ones n m, ones n m],
      Inr \<lparr>nrows = n, ncols = m, rows = replicate n (replicate m (Fin 1, Fin 1, Fin 0))\<rparr>)"
proof -
  have r: "map (\<lambda>i. map (\<lambda>j. (replicate n (replicate m (Fin 1)) ! i ! j,
                                   replicate n (replicate m (Fin 1)) ! i ! j,
                                   replicate n (replicate m (Fin 0)) ! i ! j)) [0..<m]) [0..<n]
      = replicate n (replicate m (Fin 1, Fin 1, Fin 0))"
    by (intro map_upt_const) simp
  show ?thesis
    by (simp add: colorize_def ones_def sanitize_def amap_const screen_def broadcast2_const fsub_def r)
qed

text \<open>
  Claim C8 as stated fails for \<open>colorize\<close>: called on the image \<open>[[NaN, 1]]\<close>, it leaves
  \<open>[[0, 1]]\<close> in the caller's array.
\<close>

theorem colorize_mutates_counterexample:
  "fst (colorize [img_nan] [(1, 0, 0)]) = [\<lparr>nrows = 1, ncols = 2, rows = [[Fin 0, Fin 1]]\<rparr>]
   \<and> fst (colorize [img_nan] [(1, 0, 0)]) \<noteq> [img_nan]"
  by (simp add: colorize_def img_nan_def sanitize_def amap_def)

text \<open>
  Claim C9 as stated fails: a \<open>1 x 1\<close> image and a \<open>2 x 2\<close> image do not have the same
  shape, and \<open>colorize\<close> raises nothing: the small image is broadcast and a \<open>2 x 2\<close>
  composite is returned.
\<close>

theorem colorize_broadcast_counterexample:
  "(nrows img_one, ncols img_one) \<noteq> (nrows (ones 2 2), ncols (ones 2 2))
   \<and> snd (colorize [img_one, ones 2 2] [(1, 0, 0), (0, 1, 0)]) =
       Inr \<lparr>nrows = 2, ncols = 2,
            rows = [[(Fin 1, Fin 1, Fin 0), (Fin 1, Fin 1, Fin 0)],
                    [(Fin 1, Fin 1, Fin 0), (Fin 1, Fin 1, Fin 0)]]\<rparr>"
  by (simp add: colorize_def img_one_def ones_def sanitize_def amap_def screen_def broadcast2_def
      bdim_def fsub_def numeral_2_eq_2 upt_rec)

lemma sanitize_px_fixed: "(if isfinite v then v else Fin 0) = v \<longleftrightarrow> isfinite v"
  by (cases v) simp_all

lemma map_fixed_iff: "map f xs = xs \<longleftrightarrow> (\<forall>x\<in>set xs. f x = x)"
  by (induction xs) auto

lemma sanitize_fixed_iff:
  "sanitize a = a \<longleftrightarrow> (\<forall>r\<in>set (rows a). \<forall>v\<in>set r. isfinite v)"
  by (cases a) (simp add: sanitize_def amap_def map_fixed_iff sanitize_px_fixed)

text \<open>
  On array values: when there are as many colours as images, the arrays \<open>colorize\<close>
  hands back are the input arrays with every non-finite entry replaced by 0; they are
  the inputs exactly when every entry of every input is finite.
\<close>

lemma colorize_sanitizes_inputs:
  assumes "length args = length colors"
  shows "fst (colorize args colors) = map sanitize args
       \<and> (fst (colorize args colors) = args
            \<longleftrightarrow> (\<forall>a\<in>set args. \<forall>r\<in>set (rows a). \<forall>v\<in>set r. isfinite v))"
proof -
  have f: "fst (colorize args colors) = map sanitize args"
    using assms by (simp add: colorize_def Let_def)
  have "map sanitize args = args \<longleftrightarrow> (\<forall>a\<in>set args. sanitize a = a)" by (rule map_fixed_iff)
  then show ?thesis by (simp add: f sanitize_fixed_iff)
qed

text \<open>The finite image \<open>[[1]]\<close> is left as it was.\<close>

lemma colorize_sanitizes_inputs_finite:
  "length [img_one] = length [(1, 0, 0) :: color]
   \<and> fst (colorize [img_one] [(1, 0, 0)]) = [img_one]"
proof -
  have l: "length [img_one] = length [(1, 0, 0) :: color]" by simp
  show ?thesis using colorize_sanitizes_inputs [OF l] by (simp add: img_one_def sanitize_def amap_def)
qed

lemma shape_amap: "shape (amap f a) = shape a"
  by (simp add: shape_def amap_def)

lemma broadcast2_cases:
  assumes "shape a = s" "shape b = t"
  shows "(bdim (fst s) (fst t) = None \<or> bdim (snd s) (snd t) = None) \<and> broadcast2 f a b = Inl ValueError
       \<or> (\<exists>r c x. bdim (fst s) (fst t) = Some r \<and> bdim (snd s) (snd t) = Some c
             \<and> broadcast2 f a b = Inr x \<and> shape x = (r, c))"
  using assms by (auto simp: broadcast2_def shape_def split: option.splits)

lemma screen_cases:
  assumes "cube_shape x s" "cube_shape y t"
  shows "(bdim (fst s) (fst t) = None \<or> bdim (snd s) (snd t) = None) \<and> screen x y = Inl ValueError
       \<or> (\<exists>r c p. bdim (fst s) (fst t) = Some r \<and> bdim (snd s) (snd t) = Some c
             \<and> screen x y = Inr p \<and> cube_shape p (r, c))"
proof -
  obtain r1 g1 b1 where x: "x = (r1, g1, b1)" by (cases x)
  obtain r2 g2 b2 where y: "y = (r2, g2, b2)" by (cases y)
  have sx: "shape (amap (fsub (Fin 1)) r1) = s" "shape (amap (fsub (Fin 1)) g1) = s"
           "shape (amap (fsub (Fin 1)) b1) = s"
    using assms(1) by (simp_all add: x shape_amap)
  have sy: "shape (amap (fsub (Fin 1)) r2) = t" "shape (amap (fsub (Fin 1)) g2) = t"
           "shape (amap (fsub (Fin 1)) b2) = t"
    using assms(2) by (simp_all add: y shape_amap)
  show ?thesis
    using broadcast2_cases [OF sx(1) sy(1), of fmul] broadcast2_cases [OF sx(2) sy(2), of fmul]
      broadcast2_cases [OF sx(3) sy(3), of fmul]
    by (auto simp: x y screen_def shape_amap)
qed

lemma cube_shape_layer: "cube_shape (color_layer color (sanitize a)) (shape a)"
  by (cases color) (simp add: shape_amap sanitize_def)

lemma screen_all_shapes:
  assumes "length imgs = length colors" "cube_shape base s"
  shows "case broadcast_shapes s (map shape imgs) of
           None \<Rightarrow> screen_all base (map2 (\<lambda>img color. color_layer color img) (map sanitize imgs) colors)
                     = Inl ValueError
         | Some s' \<Rightarrow> \<exists>b. screen_all base (map2 (\<lambda>img color. color_layer color img) (map sanitize imgs) colors)
                     = Inr b \<and> cube_shape b s'"
  using assms
proof (induction imgs colors arbitrary: base s rule: list_induct2)
  case Nil
  then show ?case by simp
next
  case (Cons a imgs c colors)
  note sc = screen_cases [OF Cons.prems cube_shape_layer [of c a]]
  show ?case
  proof (cases "bdim (fst s) (fst (shape a))")
    case None
    then show ?thesis using sc by auto
  next
    case r: (Some r)
    show ?thesis
    proof (cases "bdim (snd s) (snd (shape a))")
      case None
      then show ?thesis using sc r by auto
    next
      case c: (Some c')
      then obtain p where p: "screen base (color_layer c (sanitize a)) = Inr p" "cube_shape p (r, c')"
        using sc r by auto
      have step: "screen_all base
            (map2 (\<lambda>img color. color_layer color img) (map sanitize (a # imgs)) (c # colors))
          = screen_all p (map2 (\<lambda>img color. color_layer color img) (map sanitize imgs) colors)"
        using p(1) by simp
      have bs: "broadcast_shapes s (map shape (a # imgs)) = broadcast_shapes (r, c') (map shape imgs)"
        using r c by simp
      show ?thesis unfolding step bs by (rule Cons.IH [OF p(2)])
    qed
  qed
qed

text \<open>
  Claim C9, as amended. For a call with at least one image and as many colours as
  images: when the shapes are not broadcast-compatible (folding from the left, in some
  dimension the two sizes differ and neither is 1) a ValueError is raised; otherwise
  nothing is raised and the composite has the broadcast shape, also when the shapes
  differ.
\<close>

theorem colorize_shape_error:
  assumes "length (a # imgs) = length colors"
  shows "case broadcast_shapes (shape a) (map shape imgs) of
           None \<Rightarrow> snd (colorize (a # imgs) colors) = Inl ValueError
         | Some s \<Rightarrow> \<exists>out. snd (colorize (a # imgs) colors) = Inr out \<and> shape out = s"
proof -
  obtain c cs where colors: "colors = c # cs" using assms by (cases colors) auto
  have len: "length imgs = length cs" using assms colors by simp
  note sa = screen_all_shapes [OF len cube_shape_layer [of c a]]
  have sr: "shape (rollaxis b) = s" if "cube_shape b s" for b s
    using that by (cases b) (auto simp: shape_def)
  show ?thesis
  proof (cases "broadcast_shapes (shape a) (map shape imgs)")
    case None
    then show ?thesis using sa len by (simp add: colorize_def colors Let_def)
  next
    case (Some s)
    then obtain b where "screen_all (color_layer c (sanitize a))
        (map2 (\<lambda>img color. color_layer color img) (map sanitize imgs) cs) = Inr b" "cube_shape b s"
      using sa by auto
    then show ?thesis using Some sr len by (simp add: colorize_def colors Let_def)
  qed
qed

text \<open>The theorem at a \<open>2 x 2\<close> and a \<open>3 x 3\<close> image: a ValueError.\<close>

theorem colorize_shape_error_witness:
  "length [ones 2 2, ones 3 3] = length [(1, 0, 0) :: color, (0, 1, 0)]
   \<and> shape (ones 2 2) = (2, 2) \<and> shape (ones 3 3) = (3, 3)
   \<and> snd (colorize [ones 2 2, ones 3 3] [(1, 0, 0), (0, 1, 0)]) = Inl ValueError"
proof -
  have l: "length [ones 2 2, ones 3 3] = length [(1, 0, 0) :: color, (0, 1, 0)]" by simp
  show ?thesis using colorize_shape_error [OF l] by (simp add: shape_def ones_def bdim_def)
qed

lemma grid_iff:
  "grid a n m \<longleftrightarrow> nrows a = n \<and> ncols a = m \<and> length (rows a) = n \<and> (\<forall>i<n. length (rows a ! i) = m)"
  by (auto simp: grid_def wf_array_def list_all_length)

lemma grid_amap: "grid a n m \<Longrightarrow> grid (amap f a) n m"
  by (simp add: grid_iff amap_def)

lemma px_amap: "grid a n m \<Longrightarrow> i < n \<Longrightarrow> j < m \<Longrightarrow> rows (amap f a) ! i ! j = f (rows a ! i ! j)"
  by (simp add: grid_iff amap_def)

lemma broadcast2_grid:
  assumes "grid a n m" "grid b n m"
  shows "\<exists>x. broadcast2 f a b = Inr x \<and> grid x n m
           \<and> (\<forall>i<n. \<forall>j<m. rows x ! i ! j = f (rows a ! i ! j) (rows b ! i ! j))"
proof -
  define x where "x = \<lparr>nrows = n, ncols = m,
      rows = map2 (\<lambda>ra rb. map2 f (stretch m ra) (stretch m rb)) (rows a) (rows b)\<rparr>"
  have a: "nrows a = n" "ncols a = m" "length (rows a) = n" "\<And>i. i < n \<Longrightarrow> length (rows a ! i) = m"
    using assms(1) by (simp_all add: grid_iff)
  have b: "nrows b = n" "ncols b = m" "length (rows b) = n" "\<And>i. i < n \<Longrightarrow> length (rows b ! i) = m"
    using assms(2) by (simp_all add: grid_iff)
  have e: "broadcast2 f a b = Inr x"
    by (simp add: broadcast2_def a b bdim_same stretch_same_length x_def)
  have row: "rows x ! i = map2 f (rows a ! i) (rows b ! i)" if "i < n" for i
    using that a b by (simp add: x_def stretch_same_length)
  have g: "grid x n m" using a b by (simp add: grid_iff row) (simp add: x_def)
  have "rows x ! i ! j = f (rows a ! i ! j) (rows b ! i ! j)" if "i < n" "j < m" for i j
    using that a b by (simp add: row)
  then show ?thesis using e g by blast
qed

lemma screen_channel:
  assumes "grid a n m" "grid b n m"
  shows "\<exists>x. broadcast2 fmul (amap (fsub (Fin 1)) a) (amap (fsub (Fin 1)) b) = Inr x \<and> grid x n m
           \<and> (\<forall>i<n. \<forall>j<m. rows (amap (fsub (Fin 1)) x) ! i ! j
                 = screen_px (rows a ! i ! j) (rows b ! i ! j))"
proof -
  have ga: "grid (amap (fsub (Fin 1)) a) n m" and gb: "grid (amap (fsub (Fin 1)) b) n m"
    using assms by (simp_all add: grid_amap)
  from broadcast2_grid [OF ga gb, of fmul] obtain x where
    x: "broadcast2 fmul (amap (fsub (Fin 1)) a) (amap (fsub (Fin 1)) b) = Inr x" "grid x n m"
       "\<forall>i<n. \<forall>j<m. rows x ! i ! j
           = fmul (rows (amap (fsub (Fin 1)) a) ! i ! j) (rows (amap (fsub (Fin 1)) b) ! i ! j)"
    by blast
  have "rows (amap (fsub (Fin 1)) x) ! i ! j = screen_px (rows a ! i ! j) (rows b ! i ! j)"
    if "i < n" "j < m" for i j
  proof -
    have "rows x ! i ! j
        = fmul (rows (amap (fsub (Fin 1)) a) ! i ! j) (rows (amap (fsub (Fin 1)) b) ! i ! j)"
      using x(3) that by blast
    then show ?thesis
      by (simp only: px_amap [OF x(2) that] px_amap [OF assms(1) that] px_amap [OF assms(2) that]
          screen_px_def)
  qed
  then show ?thesis using x(1,2) by blast
qed

lemma screen_grid:
  assumes "cube_grid x n m" "cube_grid y n m"
  shows "\<exists>p. screen x y = Inr p \<and> cube_grid p n m
           \<and> (\<forall>i<n. \<forall>j<m. cube_px p i j = px_screen (cube_px x i j) (cube_px y i j))"
proof -
  obtain r1 g1 b1 where x: "x = (r1, g1, b1)" by (cases x)
  obtain r2 g2 b2 where y: "y = (r2, g2, b2)" by (cases y)
  have gx: "grid r1 n m" "grid g1 n m" "grid b1 n m" using assms(1) by (simp_all add: x)
  have gy: "grid r2 n m" "grid g2 n m" "grid b2 n m" using assms(2) by (simp_all add: y)
  from screen_channel [OF gx(1) gy(1)] obtain r where
    r: "broadcast2 fmul (amap (fsub (Fin 1)) r1) (amap (fsub (Fin 1)) r2) = Inr r" "grid r n m"
       "\<forall>i<n. \<forall>j<m. rows (amap (fsub (Fin 1)) r) ! i ! j = screen_px (rows r1 ! i ! j) (rows r2 ! i ! j)"
    by blast
  from screen_channel [OF gx(2) gy(2)] obtain g where
    g: "broadcast2 fmul (amap (fsub (Fin 1)) g1) (amap (fsub (Fin 1)) g2) = Inr g" "grid g n m"
       "\<forall>i<n. \<forall>j<m. rows (amap (fsub (Fin 1)) g) ! i ! j = screen_px (rows g1 ! i ! j) (rows g2 ! i ! j)"
    by blast
  from screen_channel [OF gx(3) gy(3)] obtain b where
    b: "broadcast2 fmul (amap (fsub (Fin 1)) b1) (amap (fsub (Fin 1)) b2) = Inr b" "grid b n m"
       "\<forall>i<n. \<forall>j<m. rows (amap (fsub (Fin 1)) b) ! i ! j = screen_px (rows b1 ! i ! j) (rows b2 ! i ! j)"
    by blast
  have s: "screen x y = Inr (one_minus (r, g, b))"
    by (simp add: screen_def x y r(1) g(1) b(1))
  have cg: "cube_grid (one_minus (r, g, b)) n m" using r(2) g(2) b(2) by (simp add: grid_amap)
  have "cube_px (one_minus (r, g, b)) i j = px_screen (cube_px x i j) (cube_px y i j)"
    if "i < n" "j < m" for i j
    using that r(3) g(3) b(3) by (simp add: x y)
  then show ?thesis using s cg by blast
qed

lemma layer_grid:
  assumes "grid a n m"
  shows "cube_grid (color_layer c (sanitize a)) n m"
    and "i < n \<Longrightarrow> j < m \<Longrightarrow> cube_px (color_layer c (sanitize a)) i j = px_layer c (rows a ! i ! j)"
proof -
  obtain r g b where c: "c = (r, g, b)" by (cases c)
  have sa: "grid (sanitize a) n m" using assms by (simp add: sanitize_def grid_amap)
  show "cube_grid (color_layer c (sanitize a)) n m" using sa by (simp add: c grid_amap)
  show "cube_px (color_layer c (sanitize a)) i j = px_layer c (rows a ! i ! j)" if "i < n" "j < m"
  proof -
    have p1: "rows (amap f (sanitize a)) ! i ! j = f (rows (sanitize a) ! i ! j)"
      for f :: "fval \<Rightarrow> fval"
      using px_amap [OF sa that] .
    have p2: "rows (sanitize a) ! i ! j = (if isfinite (rows a ! i ! j) then rows a ! i ! j else Fin 0)"
      unfolding sanitize_def using px_amap [OF assms that] .
    show ?thesis by (simp add: c p1 p2 layer_px_def)
  qed
qed

lemma screen_all_grid:
  assumes "length imgs = length colors" "\<forall>a\<in>set imgs. grid a n m" "cube_grid base n m"
  shows "\<exists>b. screen_all base (map2 (\<lambda>img color. color_layer color img) (map sanitize imgs) colors) = Inr b
           \<and> cube_grid b n m
           \<and> (\<forall>i<n. \<forall>j<m. cube_px b i j =
                 foldl px_screen (cube_px base i j) (map2 px_layer colors (map (\<lambda>a. rows a ! i ! j) imgs)))"
  using assms
proof (induction imgs colors arbitrary: base rule: list_induct2)
  case Nil
  then show ?case by simp
next
  case (Cons a imgs c colors)
  have ga: "grid a n m" using Cons.prems(1) by simp
  obtain p where p: "screen base (color_layer c (sanitize a)) = Inr p" "cube_grid p n m"
      "\<And>i j. i < n \<Longrightarrow> j < m \<Longrightarrow> cube_px p i j = px_screen (cube_px base i j) (px_layer c (rows a ! i ! j))"
    using screen_grid [OF Cons.prems(2) layer_grid(1) [OF ga, of c]] layer_grid(2) [OF ga, of _ _ c]
    by auto
  have rest: "\<forall>a\<in>set imgs. grid a n m" using Cons.prems(1) by simp
  obtain b where b: "screen_all p (map2 (\<lambda>img color. color_layer color img) (map sanitize imgs) colors) = Inr b"
      "cube_grid b n m"
      "\<And>i j. i < n \<Longrightarrow> j < m \<Longrightarrow> cube_px b i j =
          foldl px_screen (cube_px p i j) (map2 px_layer colors (map (\<lambda>a. rows a ! i ! j) imgs))"
    using Cons.IH [OF rest p(2)] by auto
  have "screen_all base (map2 (\<lambda>img color. color_layer color img) (map sanitize (a # imgs)) (c # colors)) = Inr b"
    using p(1) b(1) by simp
  moreover have "cube_px b i j =
      foldl px_screen (cube_px base i j) (map2 px_layer (c # colors) (map (\<lambda>a. rows a ! i ! j) (a # imgs)))"
    if "i < n" "j < m" for i j
    using b(3) [OF that] p(3) [OF that] by simp
  ultimately show ?case using b(2) by blast
qed

lemma rollaxis_px:
  assumes "cube_grid b n m"
  shows "nrows (rollaxis b) = n" "ncols (rollaxis b) = m"
    and "i < n \<Longrightarrow> j < m \<Longrightarrow> rows (rollaxis b) ! i ! j = cube_px b i j"
  using assms by (cases b; simp add: grid_iff)+

text \<open>
  Claim C7. For well-formed images of one shape \<open>n x m\<close>, and as many colours,
  \<open>colorize\<close> returns an \<open>n x m\<close> composite in which every pixel is the fold, from left
  to right, of \<open>base = 1 - (1 - base) (1 - layer)\<close> over the layers, the first layer
  being the initial base and each layer the image value multiplied by its colour.
\<close>

theorem colorize_screen_fold:
  assumes "length (a # imgs) = length (c # colors)" and "\<forall>x\<in>set (a # imgs). grid x n m"
    and "i < n" and "j < m"
  shows "\<exists>out. snd (colorize (a # imgs) (c # colors)) = Inr out \<and> nrows out = n \<and> ncols out = m
           \<and> rows out ! i ! j =
               foldl px_screen (px_layer c (rows a ! i ! j))
                 (map2 px_layer colors (map (\<lambda>x. rows x ! i ! j) imgs))"
proof -
  have len: "length imgs = length colors" using assms(1) by simp
  have ga: "grid a n m" and rest: "\<forall>x\<in>set imgs. grid x n m" using assms(2) by simp_all
  obtain b where b: "screen_all (color_layer c (sanitize a))
        (map2 (\<lambda>img color. color_layer color img) (map sanitize imgs) colors) = Inr b"
      "cube_grid b n m"
      "cube_px b i j = foldl px_screen (cube_px (color_layer c (sanitize a)) i j)
          (map2 px_layer colors (map (\<lambda>x. rows x ! i ! j) imgs))"
    using screen_all_grid [OF len rest layer_grid(1) [OF ga, of c]] assms(3,4) by auto
  have "snd (colorize (a # imgs) (c # colors)) = Inr (rollaxis b)"
    using len b(1) by (simp add: colorize_def Let_def)
  then show ?thesis
    using rollaxis_px [OF b(2)] b(3) layer_grid(2) [OF ga assms(3,4), of c] assms(3,4) by simp
qed

text \<open>
  The theorem at two all-ones \<open>2 x 2\<close> images coloured red \<open>(1, 0, 0)\<close> and green
  \<open>(0, 1, 0)\<close>: every pixel of the composite is \<open>(1, 1, 0)\<close>.
\<close>

theorem colorize_screen_fold_witness:
  "length [ones 2 2, ones 2 2] = length [(1, 0, 0) :: color, (0, 1, 0)]
   \<and> grid (ones 2 2) 2 2
   \<and> snd (colorize [ones 2 2, ones 2 2] [(1, 0, 0), (0, 1, 0)]) =
       Inr \<lparr>nrows = 2, ncols = 2,
            rows = [[(Fin 1, Fin 1, Fin 0), (Fin 1, Fin 1, Fin 0)],
                    [(Fin 1, Fin 1, Fin 0), (Fin 1, Fin 1, Fin 0)]]\<rparr>
   \<and> foldl px_screen (px_layer (1, 0, 0) (Fin 1)) (map2 px_layer [(0, 1, 0)] [Fin 1])
       = (Fin 1, Fin 1, Fin 0)"
proof -
  have l: "length [ones 2 2, ones 2 2] = length [(1, 0, 0) :: color, (0, 1, 0)]" by simp
  have g: "grid (ones 2 2) 2 2" by (simp add: grid_iff ones_def)
  have gs: "\<forall>x\<in>set [ones 2 2, ones 2 2]. grid x 2 2" using g by simp
  have i: "(1::nat) < 2" by simp
  have c: "snd (colorize [ones 2 2, ones 2 2] [(1, 0, 0), (0, 1, 0)]) =
       Inr \<lparr>nrows = 2, ncols = 2,
            rows = [[(Fin 1, Fin 1, Fin 0), (Fin 1, Fin 1, Fin 0)],
                    [(Fin 1, Fin 1, Fin 0), (Fin 1, Fin 1, Fin 0)]]\<rparr>"
    by (simp add: colorize_ones_red_green numeral_2_eq_2)
  have o: "rows (ones 2 2) ! 1 ! 1 = Fin 1" by (simp add: ones_def)
  show ?thesis
    using colorize_screen_fold [OF l gs i i] l g c o
    by (simp add: numeral_2_eq_2)
qed
section \<open>Which arrays a call changes\<close>

lemma in_place_other: "p < r \<Longrightarrow> in_place f r h ! p = h ! p"
  by (simp add: in_place_def)

lemma length_in_place: "length (in_place f r h) = length h"
  by (simp add: in_place_def)

lemma in_place_last: "in_place f (length h) (h @ [a]) = h @ [amap f a]"
  by (simp add: in_place_def)

text \<open>
  On the store, \<open>logScaleImage\<close> computes what it computes on values, and leaves the
  store as it was with two new arrays appended.
\<close>

lemma interval_call_st_eq:
  "interval_call_st reagon img h = (length h, h @ [interval_call reagon (h ! img)])"
  by (simp add: interval_call_st_def interval_call_def alloc_def in_place_last Let_def
      split: prod.splits)

lemma LogStretch_st_eq:
  "LogStretch_st a values h = (length h, h @ [LogStretch a (h ! values)])"
  by (simp add: LogStretch_st_def LogStretch_def log_stretch_def alloc_def in_place_last Let_def
      amap_amap)

lemma logScaleImage_st_eq:
  assumes "img < length h"
  shows "logScaleImage_st checked img return_full h =
     (case logScaleImage checked (h ! img) return_full of
        Inl e \<Rightarrow> (Inl e, h)
      | Inr r \<Rightarrow>
          (Inr (case r of Image im \<Rightarrow> ImageRef (Suc (length h))
                | Full im vmin vmax a \<Rightarrow> FullRef (Suc (length h)) vmin vmax a),
           h @ [interval_call \<lparr>lower_percentile = 10, upper_percentile = 99.95\<rparr> (h ! img),
                the_image r]))"
  using assms
  by (simp add: logScaleImage_st_def logScaleImage_def interval_call_st_eq LogStretch_st_eq
      Let_def nth_append the_image_def split: prod.splits sum.splits)

lemma logScaleImage_st_result:
  assumes "img < length h"
  shows "(case fst (logScaleImage_st checked img return_full h) of
            Inl e \<Rightarrow> Inl e
          | Inr r \<Rightarrow> Inr (deref (snd (logScaleImage_st checked img return_full h)) r))
         = logScaleImage checked (h ! img) return_full"
proof (cases "logScaleImage checked (h ! img) return_full")
  case (Inl e)
  then show ?thesis by (simp add: logScaleImage_st_eq [OF assms])
next
  case (Inr r)
  then show ?thesis
    by (cases r) (simp_all add: logScaleImage_st_eq [OF assms] deref_def the_image_def nth_append)
qed

lemma logScaleImage_st_store:
  assumes "img < length h"
  shows "\<exists>new. snd (logScaleImage_st checked img return_full h) = h @ new"
  by (cases "logScaleImage checked (h ! img) return_full")
     (simp_all add: logScaleImage_st_eq [OF assms])

lemma sanitize_idem: "sanitize (sanitize a) = sanitize a"
proof -
  have "(\<lambda>v. if isfinite (if isfinite v then v else Fin 0)
             then if isfinite v then v else Fin 0 else Fin 0)
      = (\<lambda>v. if isfinite v then v else Fin 0)"
    by (intro ext) simp
  then show ?thesis by (simp add: sanitize_def amap_amap)
qed

lemma sanitize_after_update: "sanitize (h[r := sanitize (h ! r)] ! x) = sanitize (h ! x)"
proof (cases "r < length h")
  case True
  then show ?thesis by (cases "x = r") (simp_all add: sanitize_idem)
next
  case False
  then have "h[r := sanitize (h ! r)] = h" by (simp add: list_update_beyond)
  then show ?thesis by simp
qed

lemma in_place_sanitize:
  "in_place (\<lambda>v. if isfinite v then v else Fin 0) r h = h[r := sanitize (h ! r)]"
  by (simp add: in_place_def sanitize_def)

lemma fold_sanitize_length:
  "length (fold (in_place (\<lambda>v. if isfinite v then v else Fin 0)) rs h) = length h"
  by (induction rs arbitrary: h) (simp_all add: length_in_place)

lemma fold_sanitize_nth:
  assumes "p < length h"
  shows "fold (in_place (\<lambda>v. if isfinite v then v else Fin 0)) rs h ! p
       = (if p \<in> set rs then sanitize (h ! p) else h ! p)"
  using assms
proof (induction rs arbitrary: h)
  case Nil
  then show ?case by simp
next
  case (Cons r rs)
  have l: "p < length (in_place (\<lambda>v. if isfinite v then v else Fin 0) r h)"
    using Cons.prems by (simp add: length_in_place)
  show ?case
    using Cons.IH [OF l] Cons.prems
    by (auto simp: in_place_sanitize sanitize_after_update sanitize_idem nth_list_update)
qed

lemma colorize_loop_store:
  assumes "length args = length colors"
  shows "snd (colorize_loop args colors images h)
       = fold (in_place (\<lambda>v. if isfinite v then v else Fin 0)) (reached args colors) h"
  using assms
  by (induction args colors images h rule: colorize_loop.induct)
     (simp_all add: reached_def Let_def del: not_None_eq)

text \<open>
  Claim C8, as amended. \<open>logScaleImage\<close> changes no array that exists before the call:
  its in-place operations are on arrays it has created. \<open>colorize\<close> changes nothing
  when the assertion on the number of colours fails; otherwise an array that exists
  before the call is, after it, the array with every non-finite entry replaced by 0 if
  it is one of the images reached (those beside the colours before the first one that
  \<open>to_rgb\<close> refuses: all of them when every colour is valid), and is unchanged if not.
\<close>

theorem input_arrays_after_call:
  assumes "img < length h" and "p < length h"
  shows "snd (logScaleImage_st checked img return_full h) ! p = h ! p
       \<and> (length args \<noteq> length colors \<longrightarrow> snd (colorize_st args colors h) = h)
       \<and> (length args = length colors \<longrightarrow>
            snd (colorize_st args colors h) ! p
              = (if p \<in> set (reached args colors) then sanitize (h ! p) else h ! p))"
proof (intro conjI impI)
  from logScaleImage_st_store [OF assms(1), of checked return_full] obtain new where
    "snd (logScaleImage_st checked img return_full h) = h @ new" by blast
  then show "snd (logScaleImage_st checked img return_full h) ! p = h ! p"
    using assms(2) by (simp add: nth_append)
next
  assume "length args \<noteq> length colors"
  then show "snd (colorize_st args colors h) = h" by (simp add: colorize_st_def)
next
  assume l: "length args = length colors"
  have "snd (colorize_st args colors h) = snd (colorize_loop args colors [] h)"
    using l by (simp add: colorize_st_def split: prod.splits sum.splits)
  then show "snd (colorize_st args colors h) ! p
      = (if p \<in> set (reached args colors) then sanitize (h ! p) else h ! p)"
    using colorize_loop_store [OF l, of "[]" h] fold_sanitize_nth [OF assms(2)] by simp
qed

text \<open>
  The theorem in the store holding \<open>[[NaN, 1]]\<close> and \<open>[[1]]\<close>: \<open>logScaleImage\<close> leaves the
  first as it is; \<open>colorize\<close> on the first leaves \<open>[[0, 1]]\<close> there and does not touch
  the second; with a refused colour, or without a colour, it changes nothing.
\<close>

theorem input_arrays_after_call_witness:
  "(0::nat) < length store0 \<and> (1::nat) < length store0
   \<and> snd (logScaleImage_st True 0 False store0) ! 0 = img_nan
   \<and> snd (colorize_st [0] [Some (1, 0, 0)] store0) ! 0
       = \<lparr>nrows = 1, ncols = 2, rows = [[Fin 0, Fin 1]]\<rparr>
   \<and> snd (colorize_st [0] [Some (1, 0, 0)] store0) ! 1 = img_one
   \<and> snd (colorize_st [0] [None] store0) ! 0 = img_nan
   \<and> snd (colorize_st [0] [] store0) = store0"
proof -
  have l: "(0::nat) < length store0" "(1::nat) < length store0" by (simp_all add: store0_def)
  have s: "store0 ! 0 = img_nan" "store0 ! 1 = img_one" by (simp_all add: store0_def)
  have a: "snd (logScaleImage_st True 0 False store0) ! 0 = img_nan"
    using input_arrays_after_call [OF l(1) l(1), of True False "[]" "[]"] by (simp add: store0_def)
  have b: "snd (colorize_st [0] [Some (1, 0, 0)] store0) ! 0
       = \<lparr>nrows = 1, ncols = 2, rows = [[Fin 0, Fin 1]]\<rparr>"
    using input_arrays_after_call [OF l(1) l(1), of True False "[0]" "[Some (1, 0, 0)]"]
    by (simp add: store0_def reached_def sanitize_def amap_def img_nan_def)
  have c: "snd (colorize_st [0] [Some (1, 0, 0)] store0) ! 1 = img_one"
    using input_arrays_after_call [OF l(1) l(2), of True False "[0]" "[Some (1, 0, 0)]"]
    by (simp add: store0_def reached_def)
  have d: "snd (colorize_st [0] [None] store0) ! 0 = img_nan"
    using input_arrays_after_call [OF l(1) l(1), of True False "[0]" "[None]"]
    by (simp add: store0_def reached_def)
  have e: "snd (colorize_st [0] [] store0) = store0"
    using input_arrays_after_call [OF l(1) l(1), of True False "[0]" "[]"] by simp
  show ?thesis using l a b c d e by simp
qed


text \<open>
  With valid colours, \<open>colorize\<close> on the store returns what \<open>colorize\<close> on values
  returns, also when two arguments name the same array.
\<close>

lemma colorize_loop_layers:
  assumes "length args = length colors" "\<forall>r\<in>set args. r < length h"
  shows "fst (colorize_loop args (map Some colors) images h)
       = Inr (images @ map2 (\<lambda>img color. color_layer color img)
                         (map sanitize (map ((!) h) args)) colors)"
  using assms
proof (induction args colors arbitrary: images h rule: list_induct2)
  case Nil
  then show ?case by simp
next
  case (Cons r args c colors)
  define h' where "h' = in_place (\<lambda>v. if isfinite v then v else Fin 0) r h"
  have r: "r < length h" using Cons.prems by simp
  have hr: "h' ! r = sanitize (h ! r)" using r by (simp add: h'_def in_place_sanitize)
  have v: "\<forall>x\<in>set args. x < length h'" using Cons.prems by (simp add: h'_def length_in_place)
  have same: "sanitize (h' ! x) = sanitize (h ! x)" for x
    by (simp add: h'_def in_place_sanitize sanitize_after_update)
  have m: "map (sanitize \<circ> (!) h') args = map (sanitize \<circ> (!) h) args"
    by (simp add: same)
  show ?case
    using Cons.IH [OF v, of "images @ [color_layer c (h' ! r)]"] hr
    by (simp add: h'_def [symmetric] Let_def m)
qed

lemma colorize_st_result:
  assumes "\<forall>r\<in>set args. r < length h"
  shows "fst (colorize_st args (map Some colors) h) = snd (colorize (map ((!) h) args) colors)"
proof (cases "length args = length colors")
  case False
  then show ?thesis by (simp add: colorize_st_def colorize_def)
next
  case True
  obtain res h' where c: "colorize_loop args (map Some colors) [] h = (res, h')"
    by (cases "colorize_loop args (map Some colors) [] h")
  have "res = Inr (map2 (\<lambda>img color. color_layer color img) (map sanitize (map ((!) h) args)) colors)"
    using colorize_loop_layers [OF True assms, of "[]"] c by simp
  then show ?thesis
    using True c by (simp add: colorize_st_def colorize_def Let_def split: list.splits sum.splits)
qed

lemma colorize_st_inputs:
  assumes "length args = length colors" "\<forall>r\<in>set args. r < length h"
  shows "map ((!) (snd (colorize_st args (map Some colors) h))) args
       = fst (colorize (map ((!) h) args) colors)"
proof -
  have tw: "takeWhile (\<lambda>c. c \<noteq> None) (map Some colors) = map Some colors"
    by (induction colors) (simp_all del: not_None_eq)
  have re: "reached args (map Some colors) = args"
    unfolding reached_def tw using assms(1) by simp
  have "snd (colorize_st args (map Some colors) h) = snd (colorize_loop args (map Some colors) [] h)"
    using assms(1) by (simp add: colorize_st_def split: prod.splits sum.splits)
  then have st: "snd (colorize_st args (map Some colors) h)
      = fold (in_place (\<lambda>v. if isfinite v then v else Fin 0)) args h"
    using colorize_loop_store [of args "map Some colors" "[]" h] assms(1) re by simp
  have "map ((!) (fold (in_place (\<lambda>v. if isfinite v then v else Fin 0)) args h)) args
      = map (\<lambda>r. sanitize (h ! r)) args"
    using assms(2) by (intro map_cong refl) (simp add: fold_sanitize_nth)
  then show ?thesis using assms(1) by (simp add: st colorize_def Let_def comp_def)
qed

end
